theory Spec2Isabelle
  imports Main
begin

section \<open>JavaScript values used by the page script\<close>

text \<open>
  The script keeps the slide index in a JavaScript number. The only numbers it ever
  computes are integers and, when \<^verbatim>\<open>Number\<close> reads something that is not a number, NaN.
\<close>

datatype jsnum = Num int | NaN

datatype error = TypeError

text \<open>Sequencing of statements that may throw: the first exception ends the handler.\<close>

definition and_then :: "error + 'a \<Rightarrow> ('a \<Rightarrow> error + 'b) \<Rightarrow> error + 'b" where
  "and_then r f = (case r of Inl e \<Rightarrow> Inl e | Inr x \<Rightarrow> f x)"

text \<open>\<^verbatim>\<open>a === b\<close>, \<^verbatim>\<open>a + b\<close>, \<^verbatim>\<open>a - b\<close> and \<^verbatim>\<open>a * b\<close> on such numbers: NaN equals nothing and absorbs.\<close>

fun js_eq :: "jsnum \<Rightarrow> jsnum \<Rightarrow> bool" where
  "js_eq (Num a) (Num b) = (a = b)"
| "js_eq _ _ = False"

fun js_add :: "jsnum \<Rightarrow> jsnum \<Rightarrow> jsnum" where
  "js_add (Num a) (Num b) = Num (a + b)"
| "js_add _ _ = NaN"

fun js_sub :: "jsnum \<Rightarrow> jsnum \<Rightarrow> jsnum" where
  "js_sub (Num a) (Num b) = Num (a - b)"
| "js_sub _ _ = NaN"

fun js_mul :: "jsnum \<Rightarrow> jsnum \<Rightarrow> jsnum" where
  "js_mul (Num a) (Num b) = Num (a * b)"
| "js_mul _ _ = NaN"

subsection \<open>Numbers as text\<close>

definition digit :: "nat \<Rightarrow> char" where
  "digit d = char_of (48 + d)"

definition is_digit :: "char \<Rightarrow> bool" where
  "is_digit c = (48 \<le> (of_char c :: nat) \<and> (of_char c :: nat) \<le> 57)"

definition digit_val :: "char \<Rightarrow> nat" where
  "digit_val c = of_char c - 48"

fun show_nat :: "nat \<Rightarrow> string" where
  "show_nat n = (if n < 10 then [digit n] else show_nat (n div 10) @ [digit (n mod 10)])"

declare show_nat.simps [simp del]

text \<open>
  \<^verbatim>\<open>`${x}`\<close> for a number \<open>x\<close>: the decimal digits of an integer, with a minus sign
  when it is negative, and the text NaN.
\<close>

fun to_string :: "jsnum \<Rightarrow> string" where
  "to_string NaN = ''NaN''"
| "to_string (Num i) = (if i < 0 then CHR ''-'' # show_nat (nat (- i)) else show_nat (nat i))"

definition read_digits :: "string \<Rightarrow> nat" where
  "read_digits cs = foldl (\<lambda>a c. 10 * a + digit_val c) 0 cs"

text \<open>
  \<^verbatim>\<open>Number(v)\<close> where \<open>v\<close> is a \<^verbatim>\<open>dataset\<close> entry: \<open>None\<close> is \<^verbatim>\<open>undefined\<close> (the attribute
  is absent), which reads as NaN. A text made of decimal digits reads as its value.
  JavaScript also reads other spellings as numbers (the empty text, surrounding white
  space, a sign, a fraction, an exponent, a radix prefix, Infinity); the script never
  writes such a text into \<^verbatim>\<open>data-slide\<close>, and this model does not cover them: they
  read as NaN here.
\<close>

definition Number_js :: "string option \<Rightarrow> jsnum" where
  "Number_js v =
     (case v of
        None \<Rightarrow> NaN
      | Some cs \<Rightarrow> if cs \<noteq> [] \<and> list_all is_digit cs then Num (int (read_digits cs)) else NaN)"

section \<open>Elements of the document\<close>

text \<open>
  An element as far as the script looks at it: its class list and its \<^verbatim>\<open>data-*\<close>
  attributes. \<^verbatim>\<open>classList\<close> is an ordered set of tokens: \<^verbatim>\<open>add\<close> appends a token that
  is not there yet, \<^verbatim>\<open>remove\<close> takes it out.
\<close>

record element =
  classList :: "string list"
  dataset :: "(string \<times> string) list"

definition classList_contains :: "string \<Rightarrow> element \<Rightarrow> bool" where
  "classList_contains c e = (c \<in> set (classList e))"

definition classList_add :: "string \<Rightarrow> element \<Rightarrow> element" where
  "classList_add c e =
     e\<lparr>classList := (if c \<in> set (classList e) then classList e else classList e @ [c])\<rparr>"

definition classList_remove :: "string \<Rightarrow> element \<Rightarrow> element" where
  "classList_remove c e = e\<lparr>classList := removeAll c (classList e)\<rparr>"

definition dataset_get :: "string \<Rightarrow> element \<Rightarrow> string option" where
  "dataset_get k e = map_of (dataset e) k"

text \<open>
  \<^verbatim>\<open>querySelector\<close> over a list of elements in document order: the position of the
  first element that matches, \<open>None\<close> for \<^verbatim>\<open>null\<close>.
\<close>

fun querySelector :: "('a \<Rightarrow> bool) \<Rightarrow> 'a list \<Rightarrow> nat option" where
  "querySelector P [] = None"
| "querySelector P (x # xs) = (if P x then Some 0 else map_option Suc (querySelector P xs))"

section \<open>The page of part_001: slider, dots, keyboard, sticky navigation, modal\<close>

text \<open>
  The listeners the script registers for \<^verbatim>\<open>keydown\<close> on the document: \<^verbatim>\<open>handleKey\<close>
  (slider navigation) and the arrow function that closes the modal on Escape.
\<close>

datatype listener = HandleKey | EscapeClose

text \<open>
  \<^verbatim>\<open>addEventListener\<close> does not register a callback that is already registered for the
  same event type; \<^verbatim>\<open>removeEventListener\<close> takes the callback off the list.
\<close>

definition addEventListener :: "listener \<Rightarrow> listener list \<Rightarrow> listener list" where
  "addEventListener l ls = (if l \<in> set ls then ls else ls @ [l])"

definition removeEventListener :: "listener \<Rightarrow> listener list \<Rightarrow> listener list" where
  "removeEventListener l ls = removeAll l ls"

text \<open>
  The mutable state the script works on. \<open>allSlides\<close> holds the \<^verbatim>\<open>style.transform\<close> of
  each \<^verbatim>\<open>.slide\<close> element, \<open>allDots\<close> the \<^verbatim>\<open>.dots__dot\<close> elements, both in document order.
  \<open>previousOverflow\<close> is \<open>None\<close> while the variable is still \<^verbatim>\<open>undefined\<close>.
\<close>

record page =
  currentSlide :: jsnum
  allSlides :: "string list"
  allDots :: "element list"
  keydown_listeners :: "listener list"
  nav :: element
  showModal :: element
  overlay :: element
  body_overflow :: string
  previousOverflow :: "string option"

subsection \<open>Slider\<close>

definition translateX :: "jsnum \<Rightarrow> string" where
  "translateX x = ''translateX('' @ to_string x @ ''%)''"

definition slideMove :: "jsnum \<Rightarrow> page \<Rightarrow> page" where
  "slideMove cur s =
     s\<lparr>allSlides :=
         map (\<lambda>index. translateX (js_mul (Num 100) (js_sub (Num (int index)) cur)))
           [0..<length (allSlides s)]\<rparr>"

text \<open>The selector \<^verbatim>\<open>.dots__dot[data-slide="v"]\<close>.\<close>

definition dot_selector :: "string \<Rightarrow> element \<Rightarrow> bool" where
  "dot_selector v e = (classList_contains ''dots__dot'' e \<and> dataset_get ''slide'' e = Some v)"

text \<open>
  \<^verbatim>\<open>activateDot\<close>: every dot loses the active class, then the first dot the selector
  finds gets it. When the selector finds none, \<^verbatim>\<open>toActivateDot\<close> is \<^verbatim>\<open>null\<close> and reading
  its \<^verbatim>\<open>classList\<close> throws a TypeError.
\<close>

definition activateDot :: "jsnum \<Rightarrow> page \<Rightarrow> error + page" where
  "activateDot curslide s =
     (let ds = map (classList_remove ''dots__dot--active'') (allDots s) in
      case querySelector (dot_selector (to_string curslide)) ds of
        None \<Rightarrow> Inl TypeError
      | Some k \<Rightarrow> Inr (s\<lparr>allDots := ds[k := classList_add ''dots__dot--active'' (ds ! k)]\<rparr>))"

definition nextSlide :: "page \<Rightarrow> error + page" where
  "nextSlide s =
     (let cur = (if js_eq (currentSlide s) (Num (int (length (allSlides s)) - 1)) then Num 0
                 else js_add (currentSlide s) (Num 1))
      in activateDot cur (slideMove cur (s\<lparr>currentSlide := cur\<rparr>)))"

definition previousSlide :: "page \<Rightarrow> error + page" where
  "previousSlide s =
     (let cur = (if js_eq (currentSlide s) (Num 0) then Num (int (length (allSlides s)) - 1)
                 else js_sub (currentSlide s) (Num 1))
      in activateDot cur (slideMove cur (s\<lparr>currentSlide := cur\<rparr>)))"

subsection \<open>Dots\<close>

text \<open>The button that \<^verbatim>\<open>createDots\<close> writes for the slide at \<open>index\<close>.\<close>

definition dot_button :: "nat \<Rightarrow> element" where
  "dot_button index =
     \<lparr>classList = [''dots__dot''], dataset = [(''slide'', to_string (Num (int index)))]\<rparr>"

text \<open>\<^verbatim>\<open>createDots\<close>: the buttons inserted at the end of the dots container, one per slide.\<close>

definition createDots :: "page \<Rightarrow> element list" where
  "createDots s = map dot_button [0..<length (allSlides s)]"

text \<open>The click listener of the dots container, for a click whose target is \<open>target\<close>.\<close>

definition dotContainer_click :: "element \<Rightarrow> page \<Rightarrow> error + page" where
  "dotContainer_click target s =
     (if classList_contains ''dots__dot'' target then
        (let cur = Number_js (dataset_get ''slide'' target)
         in activateDot cur (slideMove cur (s\<lparr>currentSlide := cur\<rparr>)))
      else Inr s)"

subsection \<open>Keyboard navigation while the slider is in view\<close>

definition handleKey :: "string \<Rightarrow> page \<Rightarrow> error + page" where
  "handleKey key s =
     and_then (if key = ''ArrowRight'' then nextSlide s else Inr s)
       (\<lambda>s1. if key = ''ArrowLeft'' then previousSlide s1 else Inr s1)"

text \<open>
  An entry of an intersection observer, as far as the callbacks read it. \<open>None\<close> is an
  entry without the property (\<^verbatim>\<open>undefined\<close>), which a condition takes as false.
\<close>

record entry =
  isIntersecting :: "bool option"

definition truthy :: "bool option \<Rightarrow> bool" where
  "truthy v = (v = Some True)"

text \<open>
  \<^verbatim>\<open>const [entry] = entries\<close> leaves \<^verbatim>\<open>entry\<close> undefined when the array is empty, and
  reading \<^verbatim>\<open>entry.isIntersecting\<close> then throws a TypeError.
\<close>

definition sliderView :: "entry list \<Rightarrow> page \<Rightarrow> error + page" where
  "sliderView entries s =
     (case entries of
        [] \<Rightarrow> Inl TypeError
      | entry # _ \<Rightarrow>
          if truthy (isIntersecting entry)
          then Inr (s\<lparr>keydown_listeners := addEventListener HandleKey (keydown_listeners s)\<rparr>)
          else Inr (s\<lparr>keydown_listeners := removeEventListener HandleKey (keydown_listeners s)\<rparr>))"

subsection \<open>Sticky navigation\<close>

definition stickyNav :: "entry list \<Rightarrow> page \<Rightarrow> error + page" where
  "stickyNav entries s =
     (case entries of
        [] \<Rightarrow> Inl TypeError
      | entry # _ \<Rightarrow>
          if \<not> truthy (isIntersecting entry)
          then Inr (s\<lparr>nav := classList_add ''sticky'' (nav s)\<rparr>)
          else Inr (s\<lparr>nav := classList_remove ''sticky'' (nav s)\<rparr>))"

subsection \<open>Modal\<close>

definition openModal :: "page \<Rightarrow> page" where
  "openModal s =
     s\<lparr>previousOverflow := Some (body_overflow s),
       showModal := classList_remove ''hidden'' (showModal s),
       overlay := classList_remove ''hidden'' (overlay s),
       body_overflow := ''hidden''\<rparr>"

text \<open>
  \<^verbatim>\<open>closeModal\<close> assigns \<^verbatim>\<open>previousOverflow\<close> to the style property. While the variable is
  still \<^verbatim>\<open>undefined\<close> the assignment is one of the text "undefined", which is no value
  of the property, and the style keeps what it had.
\<close>

definition closeModal :: "page \<Rightarrow> page" where
  "closeModal s =
     s\<lparr>showModal := classList_add ''hidden'' (showModal s),
       overlay := classList_add ''hidden'' (overlay s),
       body_overflow := (case previousOverflow s of None \<Rightarrow> body_overflow s | Some v \<Rightarrow> v)\<rparr>"

text \<open>The arrow function registered for \<^verbatim>\<open>keydown\<close> at the end of the script.\<close>

definition escapeKey :: "string \<Rightarrow> page \<Rightarrow> error + page" where
  "escapeKey key s =
     (if key = ''Escape'' \<and> \<not> classList_contains ''hidden'' (showModal s)
      then Inr (closeModal s) else Inr s)"

subsection \<open>Events\<close>

text \<open>
  A \<^verbatim>\<open>keydown\<close> on the document calls the registered listeners in the order of their
  registration.
\<close>

fun call_listener :: "listener \<Rightarrow> string \<Rightarrow> page \<Rightarrow> error + page" where
  "call_listener HandleKey key s = handleKey key s"
| "call_listener EscapeClose key s = escapeKey key s"

fun dispatch_keydown :: "listener list \<Rightarrow> string \<Rightarrow> page \<Rightarrow> error + page" where
  "dispatch_keydown [] key s = Inr s"
| "dispatch_keydown (l # ls) key s = and_then (call_listener l key s) (dispatch_keydown ls key)"

text \<open>
  Where a click in the dots container lands: on the dot at a position of \<open>allDots\<close>, or
  on the container itself, an element of class \<^verbatim>\<open>dots\<close>.
\<close>

datatype click_target = Dot nat | DotContainer

definition dotContainer :: element where
  "dotContainer = \<lparr>classList = [''dots''], dataset = []\<rparr>"

datatype event =
    RightBtnClick
  | LeftBtnClick
  | DotsClick click_target
  | KeyDown string
  | SliderObserved "entry list"
  | HeaderObserved "entry list"
  | OpenAccountClick
  | BtnCloseClick
  | OverlayClick

text \<open>
  The listener that each event runs. There is no dot to click beyond the last one: such
  an event does not exist and the page stays as it is.
\<close>

fun handle :: "event \<Rightarrow> page \<Rightarrow> error + page" where
  "handle RightBtnClick s = nextSlide s"
| "handle LeftBtnClick s = previousSlide s"
| "handle (DotsClick (Dot k)) s =
     (if k < length (allDots s) then dotContainer_click (allDots s ! k) s else Inr s)"
| "handle (DotsClick DotContainer) s = dotContainer_click dotContainer s"
| "handle (KeyDown key) s = dispatch_keydown (keydown_listeners s) key s"
| "handle (SliderObserved entries) s = sliderView entries s"
| "handle (HeaderObserved entries) s = stickyNav entries s"
| "handle OpenAccountClick s = Inr (openModal s)"
| "handle BtnCloseClick s = Inr (closeModal s)"
| "handle OverlayClick s = Inr (closeModal s)"

text \<open>A sequence of events, one after the other; it ends at the first uncaught exception.\<close>

fun run :: "event list \<Rightarrow> page \<Rightarrow> error + page" where
  "run [] s = Inr s"
| "run (e # es) s = and_then (handle e s) (run es)"

subsection \<open>Loading the page\<close>

text \<open>
  What the script finds in the document when it starts: the inline transforms of the
  \<^verbatim>\<open>.slide\<close> elements, the navigation bar, the modal, the overlay and the body's inline
  \<^verbatim>\<open>overflow\<close>.
\<close>

record markup =
  slides0 :: "string list"
  nav0 :: element
  modal0 :: element
  overlay0 :: element
  overflow0 :: string

text \<open>
  Modelled from the spec: index.html is not among the sources. The dots container is
  taken to be empty in the markup and no other element to carry the class
  \<^verbatim>\<open>dots__dot\<close>, as the indicator strip "generates one indicator per slide at init
  time": the dots of the document are the ones \<^verbatim>\<open>createDots\<close> writes.
\<close>

definition static_dots :: "element list" where
  "static_dots = []"

text \<open>
  The top level of the script, in its order: the first \<^verbatim>\<open>slideMove\<close>, \<^verbatim>\<open>createDots\<close>, the
  capture of \<open>allDots\<close>, \<^verbatim>\<open>activateDot(0)\<close> and, last, the Escape listener.
\<close>

definition page_load :: "markup \<Rightarrow> error + page" where
  "page_load m =
     (let s0 = \<lparr>currentSlide = Num 0, allSlides = slides0 m, allDots = static_dots,
                keydown_listeners = [], nav = nav0 m, showModal = modal0 m,
                overlay = overlay0 m, body_overflow = overflow0 m, previousOverflow = None\<rparr>;
          s1 = slideMove (currentSlide s0) s0;
          s2 = s1\<lparr>allDots := allDots s1 @ createDots s1\<rparr>
      in and_then (activateDot (Num 0) s2)
           (\<lambda>s3. Inr (s3\<lparr>keydown_listeners :=
                            addEventListener EscapeClose (keydown_listeners s3)\<rparr>)))"

subsection \<open>States of the carousel\<close>

text \<open>The dots as \<^verbatim>\<open>createDots\<close> writes them for \<open>N\<close> slides, and with the dot at \<open>i\<close> active.\<close>

definition strip :: "nat \<Rightarrow> element list" where
  "strip N = map dot_button [0..<N]"

definition active_strip :: "nat \<Rightarrow> nat \<Rightarrow> element list" where
  "active_strip N i = (strip N)[i := classList_add ''dots__dot--active'' (dot_button i)]"

text \<open>
  A page of \<open>N\<close> slides whose dots are the ones \<^verbatim>\<open>createDots\<close> wrote, whatever dots
  carry the active class and whatever the current index is.
\<close>

definition dots_made :: "nat \<Rightarrow> page \<Rightarrow> bool" where
  "dots_made N s \<longleftrightarrow>
     length (allSlides s) = N \<and>
     map (classList_remove ''dots__dot--active'') (allDots s) = strip N"

text \<open>
  A loaded page of \<open>N\<close> slides showing slide \<open>i\<close>: the index is \<open>i\<close>, the dot at \<open>i\<close>
  and no other is active, the Escape listener is registered and no \<^verbatim>\<open>keydown\<close>
  listener is registered twice.
\<close>

definition carousel_inv :: "nat \<Rightarrow> nat \<Rightarrow> page \<Rightarrow> bool" where
  "carousel_inv N i s \<longleftrightarrow>
     i < N \<and> currentSlide s = Num (int i) \<and> length (allSlides s) = N \<and>
     allDots s = active_strip N i \<and>
     distinct (keydown_listeners s) \<and> EscapeClose \<in> set (keydown_listeners s)"

text \<open>
  The events the browser can deliver to a page of \<open>N\<close> slides: a click on a dot is a
  click on one of the \<open>N\<close> dots, and an observer calls back with at least one entry.
\<close>

fun deliverable :: "nat \<Rightarrow> event \<Rightarrow> bool" where
  "deliverable N (DotsClick (Dot k)) = (k < N)"
| "deliverable N (SliderObserved entries) = (entries \<noteq> [])"
| "deliverable N (HeaderObserved entries) = (entries \<noteq> [])"
| "deliverable N _ = True"

text \<open>The dots that carry the active class, and the slide a dot is tagged with.\<close>

definition active_dots :: "page \<Rightarrow> element list" where
  "active_dots s = filter (classList_contains ''dots__dot--active'') (allDots s)"

definition tagged_slide :: "element \<Rightarrow> jsnum" where
  "tagged_slide d = Number_js (dataset_get ''slide'' d)"

text \<open>How many times \<^verbatim>\<open>handleKey\<close> is registered for \<^verbatim>\<open>keydown\<close>.\<close>

definition handleKey_count :: "page \<Rightarrow> nat" where
  "handleKey_count s = count_list (keydown_listeners s) HandleKey"

text \<open>The page after \<^verbatim>\<open>activateDot(k)\<close> on the slides moved to \<open>k\<close>, with \<open>k\<close> the new index.\<close>

definition goto_slide :: "nat \<Rightarrow> nat \<Rightarrow> page \<Rightarrow> page" where
  "goto_slide N k s =
     (slideMove (Num (int k)) (s\<lparr>currentSlide := Num (int k)\<rparr>))\<lparr>allDots := active_strip N k\<rparr>"

text \<open>A callback of the slider's observer, with at least one entry.\<close>

fun visibility_callback :: "event \<Rightarrow> bool" where
  "visibility_callback (SliderObserved entries) = (entries \<noteq> [])"
| "visibility_callback _ = False"

text \<open>The events that close the modal: the close button, the overlay, the Escape key.\<close>

fun closing :: "event \<Rightarrow> bool" where
  "closing BtnCloseClick = True"
| "closing OverlayClick = True"
| "closing (KeyDown key) = (key = ''Escape'')"
| "closing _ = False"

text \<open>
  The modal after \<^verbatim>\<open>openModal\<close> has saved the overflow \<open>v\<close>: the variable holds \<open>v\<close>, and
  once the modal is hidden again the body has \<open>v\<close> back. \<open>modal_closed\<close> is the second
  stage alone.
\<close>

definition modal_saved :: "string \<Rightarrow> page \<Rightarrow> bool" where
  "modal_saved v t \<longleftrightarrow>
     previousOverflow t = Some v \<and>
     (if classList_contains ''hidden'' (showModal t) then body_overflow t = v else True)"

definition modal_closed :: "string \<Rightarrow> page \<Rightarrow> bool" where
  "modal_closed v t \<longleftrightarrow>
     previousOverflow t = Some v \<and> classList_contains ''hidden'' (showModal t) \<and>
     body_overflow t = v"

subsection \<open>A page of four slides\<close>

definition demo_markup :: markup where
  "demo_markup =
     \<lparr>slides0 = ['''', '''', '''', ''''],
      nav0 = \<lparr>classList = [''nav''], dataset = []\<rparr>,
      modal0 = \<lparr>classList = [''modal'', ''hidden''], dataset = []\<rparr>,
      overlay0 = \<lparr>classList = [''overlay'', ''hidden''], dataset = []\<rparr>,
      overflow0 = ''''\<rparr>"

text \<open>The page that \<open>page_load\<close> makes of it.\<close>

definition demo_page :: page where
  "demo_page =
     \<lparr>currentSlide = Num 0,
      allSlides = [''translateX(0%)'', ''translateX(100%)'', ''translateX(200%)'',
                   ''translateX(300%)''],
      allDots = [\<lparr>classList = [''dots__dot'', ''dots__dot--active''], dataset = [(''slide'', ''0'')]\<rparr>,
                 \<lparr>classList = [''dots__dot''], dataset = [(''slide'', ''1'')]\<rparr>,
                 \<lparr>classList = [''dots__dot''], dataset = [(''slide'', ''2'')]\<rparr>,
                 \<lparr>classList = [''dots__dot''], dataset = [(''slide'', ''3'')]\<rparr>],
      keydown_listeners = [EscapeClose],
      nav = \<lparr>classList = [''nav''], dataset = []\<rparr>,
      showModal = \<lparr>classList = [''modal'', ''hidden''], dataset = []\<rparr>,
      overlay = \<lparr>classList = [''overlay'', ''hidden''], dataset = []\<rparr>,
      body_overflow = '''',
      previousOverflow = None\<rparr>"

text \<open>What the claims about the modal and the tabs look at in a page.\<close>

definition modal_state :: "page \<Rightarrow> bool \<times> string" where
  "modal_state s = (classList_contains ''hidden'' (showModal s), body_overflow s)"

definition scroll_markup :: markup where
  "scroll_markup = demo_markup\<lparr>overflow0 := ''scroll''\<rparr>"

section \<open>The tabs of the operations section\<close>

text \<open>
  The document as the tab handlers see it: its elements in document order (a node is a
  position in that list), and the two node lists the script captures when it starts.
\<close>

record tabs_page =
  elems :: "element list"
  operationsTabs :: "nat list"
  operationsContents :: "nat list"

text \<open>
  A click as the listener of the tab container receives it: the event's path (the target
  first, then its ancestors up to the root) and the element the listener is attached to.
\<close>

record click =
  path :: "nat list"
  currentTarget :: nat

definition has_class :: "string \<Rightarrow> tabs_page \<Rightarrow> nat \<Rightarrow> bool" where
  "has_class c s n = (n < length (elems s) \<and> classList_contains c (elems s ! n))"

text \<open>\<^verbatim>\<open>event.target.closest('.c')\<close>: the first node of the path that has class \<open>c\<close>.\<close>

definition closest :: "string \<Rightarrow> click \<Rightarrow> tabs_page \<Rightarrow> nat option" where
  "closest c event s = List.find (has_class c s) (path event)"

text \<open>\<^verbatim>\<open>document.querySelectorAll('.c')\<close>: the nodes of class \<open>c\<close>, in document order.\<close>

definition querySelectorAll :: "string \<Rightarrow> element list \<Rightarrow> nat list" where
  "querySelectorAll c es = filter (\<lambda>n. classList_contains c (es ! n)) [0..<length es]"

text \<open>A change of one node, and \<^verbatim>\<open>forEach\<close> over a captured node list.\<close>

definition at_node :: "(element \<Rightarrow> element) \<Rightarrow> nat \<Rightarrow> tabs_page \<Rightarrow> tabs_page" where
  "at_node f n s = s\<lparr>elems := (elems s)[n := f (elems s ! n)]\<rparr>"

definition forEach :: "nat list \<Rightarrow> (element \<Rightarrow> element) \<Rightarrow> tabs_page \<Rightarrow> tabs_page" where
  "forEach ns f s = fold (at_node f) ns s"

text \<open>
  \<^verbatim>\<open>`.operations__content--${clicked.dataset.tab}`\<close>. An element without \<^verbatim>\<open>data-tab\<close> gives
  the text "undefined". The text after the dot is one class name exactly when \<^verbatim>\<open>data-tab\<close>
  is made of name characters (letters, digits, hyphen, underscore); \<open>panel_class\<close> is that
  class. With any other character the selector is another one (for \<^verbatim>\<open>data-tab="2.x"\<close> it
  asks for an element of two classes): this model does not parse such selectors and
  takes them to find no element, so that the script throws as it does for a class that
  no element carries.
\<close>

definition template :: "string option \<Rightarrow> string" where
  "template v = (case v of None \<Rightarrow> ''undefined'' | Some t \<Rightarrow> t)"

definition name_char :: "char \<Rightarrow> bool" where
  "name_char c =
     (let n = (of_char c :: nat)
      in (48 \<le> n \<and> n \<le> 57) \<or> (65 \<le> n \<and> n \<le> 90) \<or> (97 \<le> n \<and> n \<le> 122)
         \<or> n = 45 \<or> n = 95)"

definition tab_text :: "tabs_page \<Rightarrow> nat \<Rightarrow> string" where
  "tab_text s clicked = template (dataset_get ''tab'' (elems s ! clicked))"

definition panel_class :: "tabs_page \<Rightarrow> nat \<Rightarrow> string" where
  "panel_class s clicked = ''operations__content--'' @ tab_text s clicked"

definition select_panel :: "tabs_page \<Rightarrow> nat \<Rightarrow> nat option" where
  "select_panel s clicked =
     (if list_all name_char (tab_text s clicked)
      then querySelector (classList_contains (panel_class s clicked)) (elems s)
      else None)"

text \<open>
  The statements that every variant runs once it has the clicked button: the tabs lose
  the active class and the clicked button gets it, the contents lose theirs and the
  content the selector finds gets it. When the selector finds nothing, the last
  statement reads \<^verbatim>\<open>classList\<close> of \<^verbatim>\<open>null\<close> and throws a TypeError.
\<close>

definition activate_tab :: "nat \<Rightarrow> tabs_page \<Rightarrow> error + tabs_page" where
  "activate_tab clicked s =
     (let s1 = forEach (operationsTabs s) (classList_remove ''operations__tab--active'') s;
          s2 = at_node (classList_add ''operations__tab--active'') clicked s1;
          s3 = forEach (operationsContents s2)
                 (classList_remove ''operations__content--active'') s2
      in case select_panel s3 clicked of
           None \<Rightarrow> Inl TypeError
         | Some targetContent \<Rightarrow>
             Inr (at_node (classList_add ''operations__content--active'') targetContent s3))"

text \<open>\<^verbatim>\<open>switchTab\<close> of part_001 and part_002, and the same listener of part_000.\<close>

definition switchTab :: "click \<Rightarrow> tabs_page \<Rightarrow> error + tabs_page" where
  "switchTab event s =
     (case closest ''operations__tab'' event s of
        None \<Rightarrow> Inr s
      | Some clicked \<Rightarrow> activate_tab clicked s)"

text \<open>The listener of script.js.\<close>

definition operationsTabContainer_click :: "click \<Rightarrow> tabs_page \<Rightarrow> error + tabs_page" where
  "operationsTabContainer_click event s =
     (case closest ''btn'' event s of
        None \<Rightarrow> Inr s
      | Some clicked \<Rightarrow>
          if clicked \<noteq> currentTarget event then activate_tab clicked s else Inr s)"

text \<open>The start of the script: the two node lists are captured once.\<close>

definition tabs_load :: "element list \<Rightarrow> tabs_page" where
  "tabs_load doc =
     \<lparr>elems = doc,
      operationsTabs = querySelectorAll ''operations__tab'' doc,
      operationsContents = querySelectorAll ''operations__content'' doc\<rparr>"

text \<open>The tabs and the contents that carry their active class.\<close>

definition active_tabs :: "tabs_page \<Rightarrow> nat list" where
  "active_tabs s = filter (has_class ''operations__tab--active'' s) (operationsTabs s)"

definition active_contents :: "tabs_page \<Rightarrow> nat list" where
  "active_contents s =
     filter (has_class ''operations__content--active'' s) (operationsContents s)"



text \<open>The active tabs and the active contents of a page.\<close>

definition active_state :: "tabs_page \<Rightarrow> nat list \<times> nat list" where
  "active_state s = (active_tabs s, active_contents s)"

subsection \<open>The two variants of the tab listener\<close>

datatype variant = Script_js | Later_parts

fun tab_listener :: "variant \<Rightarrow> click \<Rightarrow> tabs_page \<Rightarrow> error + tabs_page" where
  "tab_listener Script_js = operationsTabContainer_click"
| "tab_listener Later_parts = switchTab"

text \<open>
  The clicks for which the button a variant delegates to is the tab button under the
  click: always so for the later parts; for script.js when the nearest \<^verbatim>\<open>.btn\<close> of the
  path is the nearest \<^verbatim>\<open>.operations__tab\<close> and is not the container. The comment of
  script.js at \<^verbatim>\<open>closest('.btn')\<close>, "Get closest tab button", takes the markup to be so.
\<close>

fun same_button :: "variant \<Rightarrow> click \<Rightarrow> tabs_page \<Rightarrow> bool" where
  "same_button Later_parts event s = True"
| "same_button Script_js event s =
     (closest ''btn'' event s = closest ''operations__tab'' event s \<and>
      closest ''btn'' event s \<noteq> Some (currentTarget event))"

subsection \<open>Two documents with three tabs\<close>

text \<open>
  Node 0 is the tab container; nodes 1, 2 and 4 are the tabs, node 3 a span inside the
  second tab; nodes 5, 6 and 7 are the contents. The first tab and the first content
  are active. In \<open>tabs_doc\<close> the tabs carry the class \<^verbatim>\<open>btn\<close>, in \<open>plain_doc\<close> they do
  not.
\<close>

definition tabs_doc :: "element list" where
  "tabs_doc =
     [\<lparr>classList = [''operations__tab-container''], dataset = []\<rparr>,
      \<lparr>classList = [''btn'', ''operations__tab'', ''operations__tab--1'',
                    ''operations__tab--active''], dataset = [(''tab'', ''1'')]\<rparr>,
      \<lparr>classList = [''btn'', ''operations__tab'', ''operations__tab--2''],
        dataset = [(''tab'', ''2'')]\<rparr>,
      \<lparr>classList = [], dataset = []\<rparr>,
      \<lparr>classList = [''btn'', ''operations__tab'', ''operations__tab--3''],
        dataset = [(''tab'', ''3'')]\<rparr>,
      \<lparr>classList = [''operations__content'', ''operations__content--1'',
                    ''operations__content--active''], dataset = []\<rparr>,
      \<lparr>classList = [''operations__content'', ''operations__content--2''], dataset = []\<rparr>,
      \<lparr>classList = [''operations__content'', ''operations__content--3''], dataset = []\<rparr>]"

definition plain_doc :: "element list" where
  "plain_doc = map (classList_remove ''btn'') tabs_doc"

section \<open>Numbers written and read back\<close>

lemma and_then_Inr [simp]: "and_then (Inr x) f = f x"
  by (simp add: and_then_def)

lemma and_then_Inl [simp]: "and_then (Inl e) f = Inl e"
  by (simp add: and_then_def)

lemma digit_val_digit: "d < 10 \<Longrightarrow> digit_val (digit d) = d"
  by (simp add: digit_def digit_val_def)

lemma is_digit_digit: "d < 10 \<Longrightarrow> is_digit (digit d)"
  by (simp add: digit_def is_digit_def)

lemma show_nat_ne: "show_nat n \<noteq> []"
  by (subst show_nat.simps) simp

lemma show_nat_digits: "list_all is_digit (show_nat n)"
proof (induction n rule: show_nat.induct)
  case (1 n)
  show ?case
  proof (cases "n < 10")
    case True
    then show ?thesis by (subst show_nat.simps) (simp add: is_digit_digit)
  next
    case False
    with 1 show ?thesis by (subst show_nat.simps) (simp add: is_digit_digit)
  qed
qed

lemma read_digits_snoc: "read_digits (cs @ [c]) = 10 * read_digits cs + digit_val c"
  by (simp add: read_digits_def)

lemma read_show: "read_digits (show_nat n) = n"
proof (induction n rule: show_nat.induct)
  case (1 n)
  show ?case
  proof (cases "n < 10")
    case True
    then show ?thesis by (subst show_nat.simps) (simp add: read_digits_def digit_val_digit)
  next
    case False
    with 1 show ?thesis
      by (subst show_nat.simps) (simp add: read_digits_snoc digit_val_digit)
  qed
qed

lemma Number_show: "Number_js (Some (show_nat k)) = Num (int k)"
  by (simp add: Number_js_def show_nat_ne show_nat_digits read_show)

lemma show_nat_inj: "show_nat a = show_nat b \<Longrightarrow> a = b"
  by (metis read_show)

section \<open>Finding an element\<close>

lemma querySelector_Some_iff:
  "querySelector P xs = Some k \<longleftrightarrow> k < length xs \<and> P (xs ! k) \<and> (\<forall>j<k. \<not> P (xs ! j))"
proof (induction xs arbitrary: k)
  case Nil
  then show ?case by simp
next
  case (Cons x xs)
  show ?case
  proof (cases "P x")
    case True
    then show ?thesis by (cases k) auto
  next
    case False
    show ?thesis
    proof (cases k)
      case 0
      with False show ?thesis by auto
    next
      case (Suc k')
      with False Cons show ?thesis by (auto simp: less_Suc_eq_0_disj)
    qed
  qed
qed

section \<open>The dots of the strip\<close>

lemma length_strip [simp]: "length (strip N) = N"
  by (simp add: strip_def)

lemma nth_strip [simp]: "k < N \<Longrightarrow> strip N ! k = dot_button k"
  by (simp add: strip_def)

lemma dot_selector_button: "dot_selector (show_nat k) (dot_button j) \<longleftrightarrow> j = k"
  by (auto simp: dot_selector_def dot_button_def classList_contains_def dataset_get_def
      dest: show_nat_inj)

lemma querySelector_strip:
  assumes "k < N"
  shows "querySelector (dot_selector (show_nat k)) (strip N) = Some k"
  unfolding querySelector_Some_iff using assms by (simp add: dot_selector_button)

lemma remove_active_button:
  "classList_remove ''dots__dot--active'' (dot_button j) = dot_button j"
  by (simp add: classList_remove_def dot_button_def)

lemma remove_active_added:
  "classList_remove ''dots__dot--active'' (classList_add ''dots__dot--active'' (dot_button j))
     = dot_button j"
  by (simp add: classList_remove_def classList_add_def dot_button_def)

lemma remove_active_strip:
  "map (classList_remove ''dots__dot--active'') (strip N) = strip N"
  by (simp add: strip_def remove_active_button)

lemma remove_active_active_strip:
  "map (classList_remove ''dots__dot--active'') (active_strip N i) = strip N"
proof (cases "i < N")
  case True
  then show ?thesis
    by (simp add: active_strip_def map_update remove_active_added remove_active_strip
        list_update_same_conv)
next
  case False
  then show ?thesis by (simp add: active_strip_def remove_active_strip list_update_beyond)
qed

lemma activateDot_made:
  assumes "map (classList_remove ''dots__dot--active'') (allDots s) = strip N" and "k < N"
  shows "activateDot (Num (int k)) s = Inr (s\<lparr>allDots := active_strip N k\<rparr>)"
  using assms by (simp add: activateDot_def querySelector_strip active_strip_def Let_def)

lemma slideMove_simps [simp]:
  "currentSlide (slideMove c s) = currentSlide s"
  "allDots (slideMove c s) = allDots s"
  "length (allSlides (slideMove c s)) = length (allSlides s)"
  "keydown_listeners (slideMove c s) = keydown_listeners s"
  by (simp_all add: slideMove_def)

lemma goto_slide_simps [simp]:
  "currentSlide (goto_slide N k s) = Num (int k)"
  "allDots (goto_slide N k s) = active_strip N k"
  "length (allSlides (goto_slide N k s)) = length (allSlides s)"
  "keydown_listeners (goto_slide N k s) = keydown_listeners s"
  "body_overflow (goto_slide N k s) = body_overflow s"
  "previousOverflow (goto_slide N k s) = previousOverflow s"
  "showModal (goto_slide N k s) = showModal s"
  by (simp_all add: goto_slide_def slideMove_def)

lemma goto_slide_inv:
  "k < N \<Longrightarrow> carousel_inv N i s \<Longrightarrow> carousel_inv N k (goto_slide N k s)"
  by (simp add: carousel_inv_def)

lemma goto_slide_made: "dots_made N s \<Longrightarrow> dots_made N (goto_slide N k s)"
  by (simp add: dots_made_def remove_active_active_strip)

lemma inv_made: "carousel_inv N i s \<Longrightarrow> dots_made N s"
  by (simp add: carousel_inv_def dots_made_def remove_active_active_strip)

section \<open>Next and previous\<close>

lemma nextSlide_made:
  assumes "dots_made N s" and i: "i < N" and c: "currentSlide s = Num (int i)"
  shows "nextSlide s = Inr (goto_slide N (Suc i mod N) s)"
proof -
  from assms(1) have l: "length (allSlides s) = N"
    and m: "map (classList_remove ''dots__dot--active'') (allDots s) = strip N"
    by (simp_all add: dots_made_def)
  define k where "k = Suc i mod N"
  have k: "k < N" using i by (simp add: k_def)
  have cur: "(if js_eq (currentSlide s) (Num (int (length (allSlides s)) - 1)) then Num 0
              else js_add (currentSlide s) (Num 1)) = Num (int k)"
  proof (cases "Suc i = N")
    case True
    then have "int i = int N - 1" by auto
    moreover from True have "k = 0" by (simp add: k_def)
    ultimately show ?thesis by (simp add: c l)
  next
    case False
    with i have lt: "Suc i < N" by simp
    then have ne: "int i \<noteq> int N - 1" by auto
    from lt have "k = Suc i" by (simp add: k_def)
    with ne show ?thesis by (simp add: c l)
  qed
  have "nextSlide s
      = activateDot (Num (int k)) (slideMove (Num (int k)) (s\<lparr>currentSlide := Num (int k)\<rparr>))"
    unfolding nextSlide_def cur by (simp add: Let_def)
  also have "\<dots> = Inr (goto_slide N k s)"
    unfolding goto_slide_def by (rule activateDot_made) (simp_all add: m k)
  finally show ?thesis by (simp add: k_def)
qed

lemma previousSlide_made:
  assumes "dots_made N s" and i: "i < N" and c: "currentSlide s = Num (int i)"
  shows "previousSlide s = Inr (goto_slide N ((i + N - 1) mod N) s)"
proof -
  from assms(1) have l: "length (allSlides s) = N"
    and m: "map (classList_remove ''dots__dot--active'') (allDots s) = strip N"
    by (simp_all add: dots_made_def)
  define k where "k = (i + N - 1) mod N"
  have k: "k < N" using i by (simp add: k_def)
  have cur: "(if js_eq (currentSlide s) (Num 0) then Num (int (length (allSlides s)) - 1)
              else js_sub (currentSlide s) (Num 1)) = Num (int k)"
  proof (cases "i = 0")
    case True
    with i have "k = N - 1" by (simp add: k_def)
    moreover from i have "int (N - 1) = int N - 1" by auto
    ultimately show ?thesis using True by (simp add: c l)
  next
    case False
    then have e: "i + N - 1 = (i - 1) + N" by arith
    have "k = i - 1" unfolding k_def e using i by simp
    moreover from False have "int (i - 1) = int i - 1" by auto
    ultimately show ?thesis using False by (simp add: c l)
  qed
  have "previousSlide s
      = activateDot (Num (int k)) (slideMove (Num (int k)) (s\<lparr>currentSlide := Num (int k)\<rparr>))"
    unfolding previousSlide_def cur by (simp add: Let_def)
  also have "\<dots> = Inr (goto_slide N k s)"
    unfolding goto_slide_def by (rule activateDot_made) (simp_all add: m k)
  finally show ?thesis by (simp add: k_def)
qed

section \<open>A click on a dot\<close>

lemma made_length:
  "map (classList_remove ''dots__dot--active'') (allDots s) = strip N \<Longrightarrow> length (allDots s) = N"
  using length_map [of "classList_remove ''dots__dot--active''" "allDots s"] by simp

lemma made_nth:
  assumes "map (classList_remove ''dots__dot--active'') (allDots s) = strip N" and "k < N"
  shows "classList_remove ''dots__dot--active'' (allDots s ! k) = dot_button k"
proof -
  have len: "k < length (allDots s)" using assms by (simp add: made_length)
  have "map (classList_remove ''dots__dot--active'') (allDots s) ! k = strip N ! k"
    using assms(1) by simp
  with len assms(2) show ?thesis by simp
qed

lemma contains_dot_made:
  assumes "map (classList_remove ''dots__dot--active'') (allDots s) = strip N" and "k < N"
  shows "classList_contains ''dots__dot'' (allDots s ! k)"
    and "dataset_get ''slide'' (allDots s ! k) = Some (show_nat k)"
proof -
  have e: "classList_remove ''dots__dot--active'' (allDots s ! k) = dot_button k"
    using assms by (rule made_nth)
  have "classList (classList_remove ''dots__dot--active'' (allDots s ! k))
      = classList (dot_button k)"
    by (simp only: e)
  then have c: "removeAll ''dots__dot--active'' (classList (allDots s ! k)) = [''dots__dot'']"
    by (simp add: classList_remove_def dot_button_def)
  have "dataset (classList_remove ''dots__dot--active'' (allDots s ! k)) = dataset (dot_button k)"
    by (simp only: e)
  then have d: "dataset (allDots s ! k) = [(''slide'', show_nat k)]"
    by (simp add: classList_remove_def dot_button_def)
  have "''dots__dot'' \<in> set (removeAll ''dots__dot--active'' (classList (allDots s ! k)))"
    by (simp only: c) simp
  then show "classList_contains ''dots__dot'' (allDots s ! k)"
    by (simp add: classList_contains_def)
  show "dataset_get ''slide'' (allDots s ! k) = Some (show_nat k)"
    using d by (simp add: dataset_get_def)
qed

lemma dot_click_made:
  assumes "dots_made N s" and "k < N"
  shows "dotContainer_click (allDots s ! k) s = Inr (goto_slide N k s)"
proof -
  from assms(1) have m: "map (classList_remove ''dots__dot--active'') (allDots s) = strip N"
    by (simp add: dots_made_def)
  have n: "Number_js (dataset_get ''slide'' (allDots s ! k)) = Num (int k)"
    using contains_dot_made(2)[OF m assms(2)] by (simp add: Number_show)
  have "dotContainer_click (allDots s ! k) s
      = activateDot (Num (int k)) (slideMove (Num (int k)) (s\<lparr>currentSlide := Num (int k)\<rparr>))"
    by (simp add: dotContainer_click_def contains_dot_made(1)[OF m assms(2)] n Let_def)
  also have "\<dots> = Inr (goto_slide N k s)"
    unfolding goto_slide_def by (rule activateDot_made) (simp_all add: m assms)
  finally show ?thesis .
qed

lemma handle_dot_made:
  assumes "dots_made N s" and "k < N"
  shows "handle (DotsClick (Dot k)) s = Inr (goto_slide N k s)"
proof -
  from assms(1) have "length (allDots s) = N"
    by (simp add: dots_made_def made_length)
  with assms show ?thesis by (simp add: dot_click_made)
qed

lemma container_click: "dotContainer_click dotContainer s = Inr s"
  by (simp add: dotContainer_click_def dotContainer_def classList_contains_def)

section \<open>Keys, observers and the modal keep the carousel as it is\<close>

lemma handleKey_right: "handleKey ''ArrowRight'' s = nextSlide s"
  by (cases "nextSlide s") (simp_all add: handleKey_def)

lemma handleKey_left: "handleKey ''ArrowLeft'' s = previousSlide s"
  by (simp add: handleKey_def)

lemma handleKey_other:
  "key \<noteq> ''ArrowRight'' \<Longrightarrow> key \<noteq> ''ArrowLeft'' \<Longrightarrow> handleKey key s = Inr s"
  by (simp add: handleKey_def)

lemma closeModal_simps [simp]:
  "currentSlide (closeModal s) = currentSlide s"
  "allDots (closeModal s) = allDots s"
  "allSlides (closeModal s) = allSlides s"
  "keydown_listeners (closeModal s) = keydown_listeners s"
  "previousOverflow (closeModal s) = previousOverflow s"
  by (simp_all add: closeModal_def)

lemma openModal_simps [simp]:
  "currentSlide (openModal s) = currentSlide s"
  "allDots (openModal s) = allDots s"
  "allSlides (openModal s) = allSlides s"
  "keydown_listeners (openModal s) = keydown_listeners s"
  "previousOverflow (openModal s) = Some (body_overflow s)"
  by (simp_all add: openModal_def)

lemma carousel_inv_cong:
  assumes "carousel_inv N i s"
    and "currentSlide t = currentSlide s" and "allDots t = allDots s"
    and "length (allSlides t) = length (allSlides s)"
    and "keydown_listeners t = keydown_listeners s"
  shows "carousel_inv N i t"
  using assms by (simp add: carousel_inv_def)

lemma escapeKey_cases: "escapeKey key s = Inr s \<or> escapeKey key s = Inr (closeModal s)"
  by (simp add: escapeKey_def)

lemma escapeKey_inv:
  assumes "carousel_inv N i s"
  shows "\<exists>s'. escapeKey key s = Inr s' \<and> carousel_inv N i s'"
proof -
  have "carousel_inv N i (closeModal s)"
    by (rule carousel_inv_cong[OF assms]) simp_all
  with assms escapeKey_cases[of key s] show ?thesis by auto
qed

lemma next_inv:
  assumes "carousel_inv N i s"
  shows "nextSlide s = Inr (goto_slide N (Suc i mod N) s)"
    and "carousel_inv N (Suc i mod N) (goto_slide N (Suc i mod N) s)"
proof -
  have i: "i < N" and c: "currentSlide s = Num (int i)"
    using assms by (simp_all add: carousel_inv_def)
  show "nextSlide s = Inr (goto_slide N (Suc i mod N) s)"
    by (rule nextSlide_made[OF inv_made[OF assms] i c])
  have "Suc i mod N < N" using i by simp
  then show "carousel_inv N (Suc i mod N) (goto_slide N (Suc i mod N) s)"
    using assms by (rule goto_slide_inv)
qed

lemma previous_inv:
  assumes "carousel_inv N i s"
  shows "previousSlide s = Inr (goto_slide N ((i + N - 1) mod N) s)"
    and "carousel_inv N ((i + N - 1) mod N) (goto_slide N ((i + N - 1) mod N) s)"
proof -
  have i: "i < N" and c: "currentSlide s = Num (int i)"
    using assms by (simp_all add: carousel_inv_def)
  show "previousSlide s = Inr (goto_slide N ((i + N - 1) mod N) s)"
    by (rule previousSlide_made[OF inv_made[OF assms] i c])
  have "(i + N - 1) mod N < N" using i by simp
  then show "carousel_inv N ((i + N - 1) mod N) (goto_slide N ((i + N - 1) mod N) s)"
    using assms by (rule goto_slide_inv)
qed

lemma handleKey_inv:
  assumes "carousel_inv N i s"
  shows "\<exists>s' j. handleKey key s = Inr s' \<and> carousel_inv N j s'"
proof -
  consider "key = ''ArrowRight''" | "key = ''ArrowLeft''"
    | "key \<noteq> ''ArrowRight''" "key \<noteq> ''ArrowLeft''" by blast
  then show ?thesis
  proof cases
    case 1
    then show ?thesis using next_inv[OF assms] by (metis handleKey_right)
  next
    case 2
    then show ?thesis using previous_inv[OF assms] by (metis handleKey_left)
  next
    case 3
    then show ?thesis using assms handleKey_other by blast
  qed
qed

lemma dispatch_inv:
  assumes "carousel_inv N i s"
  shows "\<exists>s' j. dispatch_keydown ls key s = Inr s' \<and> carousel_inv N j s'"
  using assms
proof (induction ls arbitrary: s i)
  case Nil
  then show ?case by auto
next
  case (Cons l ls)
  have "\<exists>s1 j. call_listener l key s = Inr s1 \<and> carousel_inv N j s1"
  proof (cases l)
    case HandleKey
    then show ?thesis using handleKey_inv[OF Cons.prems] by simp
  next
    case EscapeClose
    then show ?thesis using escapeKey_inv[OF Cons.prems, of key] by auto
  qed
  then obtain s1 j where s1: "call_listener l key s = Inr s1" and inv1: "carousel_inv N j s1"
    by blast
  from Cons.IH[OF inv1] s1 show ?case by simp
qed

lemma sliderView_inv:
  assumes "carousel_inv N i s" and "entries \<noteq> []"
  shows "\<exists>s'. sliderView entries s = Inr s' \<and> carousel_inv N i s'"
proof -
  from assms(2) obtain en more where e: "entries = en # more" by (cases entries) auto
  show ?thesis
    using assms(1) unfolding e
    by (auto simp: sliderView_def carousel_inv_def addEventListener_def removeEventListener_def
        distinct_removeAll)
qed

lemma stickyNav_inv:
  assumes "carousel_inv N i s" and "entries \<noteq> []"
  shows "\<exists>s'. stickyNav entries s = Inr s' \<and> carousel_inv N i s'"
proof -
  from assms(2) obtain en more where e: "entries = en # more" by (cases entries) auto
  show ?thesis
    using assms(1) unfolding e by (auto simp: stickyNav_def carousel_inv_def)
qed

lemma handle_inv:
  assumes "carousel_inv N i s" and "deliverable N e"
  shows "\<exists>s' j. handle e s = Inr s' \<and> carousel_inv N j s'"
proof (cases e)
  case RightBtnClick
  then show ?thesis using next_inv[OF assms(1)] by auto
next
  case LeftBtnClick
  then show ?thesis using previous_inv[OF assms(1)] by auto
next
  case (DotsClick t)
  show ?thesis
  proof (cases t)
    case (Dot k)
    with DotsClick assms(2) have k: "k < N" by simp
    have "handle e s = Inr (goto_slide N k s)"
      unfolding DotsClick Dot by (rule handle_dot_made[OF inv_made[OF assms(1)] k])
    then show ?thesis using goto_slide_inv[OF k assms(1)] by blast
  next
    case DotContainer
    then show ?thesis using DotsClick assms(1) by (auto simp: container_click)
  qed
next
  case (KeyDown key)
  then show ?thesis using dispatch_inv[OF assms(1)] by simp
next
  case (SliderObserved entries)
  then show ?thesis using sliderView_inv[OF assms(1), of entries] assms(2) by auto
next
  case (HeaderObserved entries)
  then show ?thesis using stickyNav_inv[OF assms(1), of entries] assms(2) by auto
next
  case OpenAccountClick
  have "carousel_inv N i (openModal s)"
    by (rule carousel_inv_cong[OF assms(1)]) simp_all
  with OpenAccountClick show ?thesis by auto
next
  case BtnCloseClick
  have "carousel_inv N i (closeModal s)"
    by (rule carousel_inv_cong[OF assms(1)]) simp_all
  with BtnCloseClick show ?thesis by auto
next
  case OverlayClick
  have "carousel_inv N i (closeModal s)"
    by (rule carousel_inv_cong[OF assms(1)]) simp_all
  with OverlayClick show ?thesis by auto
qed

lemma run_inv:
  assumes "carousel_inv N i s" and "list_all (deliverable N) es"
  shows "\<exists>s' j. run es s = Inr s' \<and> carousel_inv N j s'"
  using assms
proof (induction es arbitrary: s i)
  case Nil
  then show ?case by auto
next
  case (Cons e es)
  then have "deliverable N e" and rest: "list_all (deliverable N) es" by simp_all
  from handle_inv[OF Cons.prems(1) this(1)]
  obtain s1 j where s1: "handle e s = Inr s1" and inv1: "carousel_inv N j s1" by blast
  from Cons.IH[OF inv1 rest] s1 show ?case by simp
qed

lemma page_load_inv:
  assumes "slides0 m \<noteq> []"
  shows "\<exists>s0. page_load m = Inr s0 \<and> carousel_inv (length (slides0 m)) 0 s0"
proof -
  define N where "N = length (slides0 m)"
  have N: "0 < N" using assms by (simp add: N_def)
  define s2 where "s2 = (slideMove (Num 0)
      \<lparr>currentSlide = Num 0, allSlides = slides0 m, allDots = static_dots,
       keydown_listeners = [], nav = nav0 m, showModal = modal0 m,
       overlay = overlay0 m, body_overflow = overflow0 m, previousOverflow = None\<rparr>)
      \<lparr>allDots := strip N\<rparr>"
  have a: "activateDot (Num (int 0)) s2 = Inr (s2\<lparr>allDots := active_strip N 0\<rparr>)"
    by (rule activateDot_made) (simp_all add: s2_def remove_active_strip N)
  have "page_load m
      = Inr (s2\<lparr>allDots := active_strip N 0, keydown_listeners := [EscapeClose]\<rparr>)"
    using a by (simp add: page_load_def Let_def s2_def createDots_def strip_def static_dots_def
        slideMove_def N_def addEventListener_def)
  moreover have
    "carousel_inv N 0 (s2\<lparr>allDots := active_strip N 0, keydown_listeners := [EscapeClose]\<rparr>)"
    using N by (simp add: carousel_inv_def s2_def slideMove_def N_def)
  ultimately show ?thesis by (simp add: N_def)
qed

lemma reachable_inv:
  assumes "slides0 m \<noteq> []" and "list_all (deliverable (length (slides0 m))) es"
  shows "\<exists>s0 s i. page_load m = Inr s0 \<and> run es s0 = Inr s
           \<and> carousel_inv (length (slides0 m)) i s"
proof -
  from page_load_inv[OF assms(1)] obtain s0
    where l: "page_load m = Inr s0" and i0: "carousel_inv (length (slides0 m)) 0 s0" by blast
  from run_inv[OF i0 assms(2)] l show ?thesis by blast
qed

section \<open>The carousel after any sequence of events\<close>

lemma filter_update_single:
  assumes "\<forall>x\<in>set xs. \<not> P x" and "P y" and "i < length xs"
  shows "filter P (xs[i := y]) = [y]"
  using assms
proof (induction xs arbitrary: i)
  case Nil
  then show ?case by simp
next
  case (Cons x xs)
  show ?case
  proof (cases i)
    case 0
    with Cons.prems show ?thesis by (simp add: filter_empty_conv)
  next
    case (Suc j)
    with Cons show ?thesis by simp
  qed
qed

lemma button_not_active: "\<not> classList_contains ''dots__dot--active'' (dot_button j)"
  by (simp add: classList_contains_def dot_button_def)

lemma added_active:
  "classList_contains ''dots__dot--active'' (classList_add ''dots__dot--active'' e)"
  by (simp add: classList_contains_def classList_add_def)

lemma active_dots_strip:
  assumes "i < N"
  shows "filter (classList_contains ''dots__dot--active'') (active_strip N i)
       = [classList_add ''dots__dot--active'' (dot_button i)]"
  unfolding active_strip_def
  by (rule filter_update_single) (auto simp: strip_def button_not_active added_active assms)

lemma tagged_active: "tagged_slide (classList_add ''dots__dot--active'' (dot_button i)) = Num (int i)"
  by (simp add: tagged_slide_def dataset_get_def classList_add_def dot_button_def Number_show)

lemma length_active_strip [simp]: "length (active_strip N i) = N"
  by (simp add: active_strip_def)

lemma nth_active_strip:
  "j < N \<Longrightarrow> active_strip N i ! j
     = (if j = i then classList_add ''dots__dot--active'' (dot_button i) else dot_button j)"
  by (simp add: active_strip_def nth_list_update)

lemma active_flags:
  "map (classList_contains ''dots__dot--active'') (active_strip N k) = map (\<lambda>j. j = k) [0..<N]"
  by (rule nth_equalityI) (auto simp: nth_active_strip added_active button_not_active)

lemma tagged_button: "tagged_slide (dot_button i) = Num (int i)"
  by (simp add: tagged_slide_def dataset_get_def dot_button_def Number_show)

lemma mod_roundtrip:
  assumes "i < (N::nat)"
  shows "(Suc i mod N + N - 1) mod N = i"
proof (cases "Suc i = N")
  case True
  then show ?thesis using assms by auto
next
  case False
  with assms have "Suc i < N" by simp
  then show ?thesis by simp
qed

text \<open>
  Claim C1. On a page of at least one slide, after loading and any sequence of clicks on
  the right and left buttons, clicks on dots, key presses, observer callbacks and modal
  events, \<open>currentSlide\<close> is an integer \<open>i\<close> with \<open>0 \<le> i < N\<close> (never NaN, never out of
  range), and from there \<open>nextSlide\<close> gives \<open>(i + 1) mod N\<close> and \<open>previousSlide\<close> gives
  \<open>(i - 1 + N) mod N\<close>: both wrap around.
\<close>

theorem currentSlide_stays_in_range:
  assumes "slides0 m \<noteq> []" and "list_all (deliverable (length (slides0 m))) es"
  shows "\<exists>s0 s i. page_load m = Inr s0 \<and> run es s0 = Inr s
           \<and> i < length (slides0 m) \<and> currentSlide s = Num (int i)
           \<and> (\<exists>s'. nextSlide s = Inr s'
                  \<and> currentSlide s' = Num (int ((i + 1) mod length (slides0 m))))
           \<and> (\<exists>s'. previousSlide s = Inr s'
                  \<and> currentSlide s' = Num (int ((i + length (slides0 m) - 1) mod length (slides0 m))))"
proof -
  from reachable_inv[OF assms] obtain s0 s i
    where l: "page_load m = Inr s0" and r: "run es s0 = Inr s"
      and inv: "carousel_inv (length (slides0 m)) i s" by blast
  have i: "i < length (slides0 m)" and c: "currentSlide s = Num (int i)"
    using inv by (simp_all add: carousel_inv_def)
  have n: "\<exists>s'. nextSlide s = Inr s'
             \<and> currentSlide s' = Num (int ((i + 1) mod length (slides0 m)))"
    using next_inv(1)[OF inv] by simp
  have p: "\<exists>s'. previousSlide s = Inr s'
             \<and> currentSlide s' = Num (int ((i + length (slides0 m) - 1) mod length (slides0 m)))"
    using previous_inv(1)[OF inv] by simp
  from l r i c n p show ?thesis by blast
qed

text \<open>
  Claim C2. On a page of at least one slide, when loading has completed and after every
  further event, exactly one dot carries the active class, and the slide it is tagged
  with is \<open>currentSlide\<close>.
\<close>

theorem one_active_dot_at_currentSlide:
  assumes "slides0 m \<noteq> []" and "list_all (deliverable (length (slides0 m))) es"
  shows "\<exists>s0 s d. page_load m = Inr s0 \<and> run es s0 = Inr s
           \<and> active_dots s = [d] \<and> tagged_slide d = currentSlide s"
proof -
  from reachable_inv[OF assms] obtain s0 s i
    where l: "page_load m = Inr s0" and r: "run es s0 = Inr s"
      and inv: "carousel_inv (length (slides0 m)) i s" by blast
  have i: "i < length (slides0 m)" and c: "currentSlide s = Num (int i)"
    and d: "allDots s = active_strip (length (slides0 m)) i"
    using inv by (simp_all add: carousel_inv_def)
  have "active_dots s = [classList_add ''dots__dot--active'' (dot_button i)]"
    by (simp add: active_dots_def d active_dots_strip[OF i])
  moreover have "tagged_slide (classList_add ''dots__dot--active'' (dot_button i)) = currentSlide s"
    by (simp add: tagged_active c)
  ultimately show ?thesis using l r by blast
qed

text \<open>
  Claim C3. For \<open>N\<close> slides and every index \<open>i < N\<close>, \<open>nextSlide\<close> followed by
  \<open>previousSlide\<close> succeeds and brings \<open>currentSlide\<close> back to \<open>i\<close>.
\<close>

theorem previous_undoes_next:
  assumes "dots_made N s" and "i < N" and "currentSlide s = Num (int i)"
  shows "\<exists>s1 s2. nextSlide s = Inr s1 \<and> previousSlide s1 = Inr s2
           \<and> currentSlide s2 = currentSlide s"
proof -
  let ?k = "Suc i mod N"
  have n: "nextSlide s = Inr (goto_slide N ?k s)"
    by (rule nextSlide_made[OF assms])
  have k: "?k < N" using assms(2) by simp
  have p: "previousSlide (goto_slide N ?k s) = Inr (goto_slide N ((?k + N - 1) mod N) (goto_slide N ?k s))"
    by (rule previousSlide_made[OF goto_slide_made[OF assms(1)] k]) simp
  have e: "(?k + N - 1) mod N = i" by (rule mod_roundtrip[OF assms(2)])
  have "currentSlide (goto_slide N ((?k + N - 1) mod N) (goto_slide N ?k s)) = currentSlide s"
    by (simp only: e goto_slide_simps assms(3))
  with n p show ?thesis by blast
qed

text \<open>
  Claim C4. For every \<open>k < N\<close>, whatever the index and the active dots were before, a
  click on the dot at \<open>k\<close> sets \<open>currentSlide\<close> to \<open>k\<close>, gives slide \<open>j\<close> the transform
  \<^verbatim>\<open>translateX(P%)\<close> with \<open>P\<close> the decimal text of \<open>100 * (j - k)\<close>, and leaves the dot at
  \<open>k\<close> active and every other dot inactive; the dots keep their tags.
\<close>

theorem dot_click_goes_to_slide:
  assumes "dots_made N s" and "k < N"
  shows "\<exists>s'. handle (DotsClick (Dot k)) s = Inr s'
           \<and> currentSlide s' = Num (int k)
           \<and> allSlides s'
               = map (\<lambda>j. ''translateX('' @ to_string (Num (100 * (int j - int k))) @ ''%)'')
                   [0..<N]
           \<and> map (classList_contains ''dots__dot--active'') (allDots s') = map (\<lambda>j. j = k) [0..<N]
           \<and> map tagged_slide (allDots s') = map (\<lambda>j. Num (int j)) [0..<N]"
proof -
  have h: "handle (DotsClick (Dot k)) s = Inr (goto_slide N k s)"
    by (rule handle_dot_made[OF assms])
  have l: "length (allSlides s) = N" using assms(1) by (simp add: dots_made_def)
  have a: "allSlides (goto_slide N k s)
      = map (\<lambda>j. ''translateX('' @ to_string (Num (100 * (int j - int k))) @ ''%)'') [0..<N]"
    by (simp add: goto_slide_def slideMove_def translateX_def l)
  have t: "map tagged_slide (active_strip N k) = map (\<lambda>j. Num (int j)) [0..<N]"
    by (rule nth_equalityI) (auto simp: nth_active_strip tagged_active tagged_button)
  from h a t show ?thesis by (simp add: active_flags)
qed

text \<open>
  Claim C10. On a page of at least one slide, loading and every further event return
  without a TypeError, so no call of \<open>activateDot\<close> has met a missing dot; the index
  the page is left with is some \<open>i < N\<close>, the dot at \<open>i\<close> is tagged with the text of
  \<open>i\<close>, the selector that \<open>activateDot\<close> builds from the index finds that dot, and
  \<open>activateDot\<close> on the index succeeds.
\<close>

theorem activateDot_finds_its_dot:
  assumes "slides0 m \<noteq> []" and "list_all (deliverable (length (slides0 m))) es"
  shows "\<exists>s0 s i. page_load m = Inr s0 \<and> run es s0 = Inr s
           \<and> i < length (slides0 m) \<and> currentSlide s = Num (int i)
           \<and> dataset_get ''slide'' (allDots s ! i) = Some (to_string (Num (int i)))
           \<and> querySelector (dot_selector (to_string (currentSlide s))) (allDots s) = Some i
           \<and> activateDot (currentSlide s) s = Inr s"
proof -
  from reachable_inv[OF assms] obtain s0 s i
    where l: "page_load m = Inr s0" and r: "run es s0 = Inr s"
      and inv: "carousel_inv (length (slides0 m)) i s" by blast
  let ?N = "length (slides0 m)"
  have i: "i < ?N" and c: "currentSlide s = Num (int i)"
    and d: "allDots s = active_strip ?N i"
    using inv by (simp_all add: carousel_inv_def)
  have m: "map (classList_remove ''dots__dot--active'') (allDots s) = strip ?N"
    using inv_made[OF inv] by (simp add: dots_made_def)
  have tag: "dataset_get ''slide'' (allDots s ! i) = Some (to_string (Num (int i)))"
    using contains_dot_made(2)[OF m i] by simp
  have q: "querySelector (dot_selector (to_string (currentSlide s))) (allDots s) = Some i"
    unfolding querySelector_Some_iff c d
    using i by (auto simp: nth_active_strip dot_selector_def classList_contains_def
        dataset_get_def classList_add_def dot_button_def dest: show_nat_inj)
  have "activateDot (currentSlide s) s = Inr (s\<lparr>allDots := active_strip ?N i\<rparr>)"
    unfolding c by (rule activateDot_made[OF m i])
  then have a: "activateDot (currentSlide s) s = Inr s" by (simp add: d[symmetric])
  from l r i c tag q a show ?thesis by blast
qed

section \<open>The claims at the page of four slides\<close>

lemma demo_load: "page_load demo_markup = Inr demo_page"
  by code_simp

lemma demo_made: "dots_made 4 demo_page"
  by code_simp

lemma demo_inv: "carousel_inv 4 0 demo_page"
  by code_simp

theorem currentSlide_stays_in_range_witness:
  "slides0 demo_markup \<noteq> [] \<and>
   list_all (deliverable (length (slides0 demo_markup)))
     [RightBtnClick, DotsClick (Dot 3), KeyDown ''ArrowRight'', LeftBtnClick] \<and>
   (\<exists>s0 s i. page_load demo_markup = Inr s0
      \<and> run [RightBtnClick, DotsClick (Dot 3), KeyDown ''ArrowRight'', LeftBtnClick] s0 = Inr s
      \<and> i < length (slides0 demo_markup) \<and> currentSlide s = Num (int i)
      \<and> (\<exists>s'. nextSlide s = Inr s'
             \<and> currentSlide s' = Num (int ((i + 1) mod length (slides0 demo_markup))))
      \<and> (\<exists>s'. previousSlide s = Inr s'
             \<and> currentSlide s' = Num (int ((i + length (slides0 demo_markup) - 1)
                                            mod length (slides0 demo_markup)))))"
proof -
  have a: "slides0 demo_markup \<noteq> []" by (simp add: demo_markup_def)
  have b: "list_all (deliverable (length (slides0 demo_markup)))
     [RightBtnClick, DotsClick (Dot 3), KeyDown ''ArrowRight'', LeftBtnClick]"
    by (simp add: demo_markup_def)
  from a b currentSlide_stays_in_range[OF a b] show ?thesis by blast
qed

theorem one_active_dot_at_currentSlide_witness:
  "slides0 demo_markup \<noteq> [] \<and>
   list_all (deliverable (length (slides0 demo_markup)))
     [LeftBtnClick, DotsClick (Dot 1), RightBtnClick] \<and>
   (\<exists>s0 s d. page_load demo_markup = Inr s0
      \<and> run [LeftBtnClick, DotsClick (Dot 1), RightBtnClick] s0 = Inr s
      \<and> active_dots s = [d] \<and> tagged_slide d = currentSlide s)"
proof -
  have a: "slides0 demo_markup \<noteq> []" by (simp add: demo_markup_def)
  have b: "list_all (deliverable (length (slides0 demo_markup)))
     [LeftBtnClick, DotsClick (Dot 1), RightBtnClick]"
    by (simp add: demo_markup_def)
  from a b one_active_dot_at_currentSlide[OF a b] show ?thesis by blast
qed

theorem previous_undoes_next_witness:
  "dots_made 4 (goto_slide 4 3 demo_page) \<and> (3::nat) < 4 \<and>
   currentSlide (goto_slide 4 3 demo_page) = Num (int 3) \<and>
   (\<exists>s1 s2. nextSlide (goto_slide 4 3 demo_page) = Inr s1 \<and> previousSlide s1 = Inr s2
      \<and> currentSlide s2 = currentSlide (goto_slide 4 3 demo_page))"
proof -
  have a: "dots_made 4 (goto_slide 4 3 demo_page)" by (rule goto_slide_made[OF demo_made])
  have b: "(3::nat) < 4" by simp
  have c: "currentSlide (goto_slide 4 3 demo_page) = Num (int 3)" by simp
  from a b c previous_undoes_next[OF a b c] show ?thesis by blast
qed

theorem dot_click_goes_to_slide_witness:
  "dots_made 4 demo_page \<and> (2::nat) < 4 \<and>
   (\<exists>s'. handle (DotsClick (Dot 2)) demo_page = Inr s'
      \<and> currentSlide s' = Num 2
      \<and> allSlides s' = [''translateX(-200%)'', ''translateX(-100%)'', ''translateX(0%)'',
                        ''translateX(100%)'']
      \<and> map (classList_contains ''dots__dot--active'') (allDots s') = [False, False, True, False]
      \<and> map tagged_slide (allDots s') = [Num 0, Num 1, Num 2, Num 3])"
proof -
  have b: "(2::nat) < 4" by simp
  from dot_click_goes_to_slide[OF demo_made b] obtain s'
    where h: "handle (DotsClick (Dot 2)) demo_page = Inr s'"
      and c: "currentSlide s' = Num (int 2)"
      and a: "allSlides s'
          = map (\<lambda>j. ''translateX('' @ to_string (Num (100 * (int j - int 2))) @ ''%)'') [0..<4]"
      and f: "map (classList_contains ''dots__dot--active'') (allDots s')
          = map (\<lambda>j. j = 2) [0..<4]"
      and t: "map tagged_slide (allDots s') = map (\<lambda>j. Num (int j)) [0..<4]"
    by blast
  have c': "Num (int 2) = Num 2" by simp
  have a': "map (\<lambda>j. ''translateX('' @ to_string (Num (100 * (int j - int 2))) @ ''%)'') [0..<4]
      = [''translateX(-200%)'', ''translateX(-100%)'', ''translateX(0%)'', ''translateX(100%)'']"
    by code_simp
  have f': "map (\<lambda>j. j = 2) [0..<4] = [False, False, True, False]"
    by code_simp
  have t': "map (\<lambda>j. Num (int j)) [0..<4] = [Num 0, Num 1, Num 2, Num 3]"
    by code_simp
  have r: "handle (DotsClick (Dot 2)) demo_page = Inr s'
      \<and> currentSlide s' = Num 2
      \<and> allSlides s' = [''translateX(-200%)'', ''translateX(-100%)'', ''translateX(0%)'',
                        ''translateX(100%)'']
      \<and> map (classList_contains ''dots__dot--active'') (allDots s') = [False, False, True, False]
      \<and> map tagged_slide (allDots s') = [Num 0, Num 1, Num 2, Num 3]"
    using h c a f t unfolding c' a' f' t' by (intro conjI)
  from r have ex: "\<exists>s'. handle (DotsClick (Dot 2)) demo_page = Inr s'
      \<and> currentSlide s' = Num 2
      \<and> allSlides s' = [''translateX(-200%)'', ''translateX(-100%)'', ''translateX(0%)'',
                        ''translateX(100%)'']
      \<and> map (classList_contains ''dots__dot--active'') (allDots s') = [False, False, True, False]
      \<and> map tagged_slide (allDots s') = [Num 0, Num 1, Num 2, Num 3]"
    by (rule exI)
  show ?thesis
    by (rule conjI[OF demo_made conjI[OF b ex]])
qed

theorem activateDot_finds_its_dot_witness:
  "slides0 demo_markup \<noteq> [] \<and>
   list_all (deliverable (length (slides0 demo_markup)))
     [LeftBtnClick, DotsClick (Dot 0), LeftBtnClick, KeyDown ''ArrowLeft''] \<and>
   (\<exists>s0 s i. page_load demo_markup = Inr s0
      \<and> run [LeftBtnClick, DotsClick (Dot 0), LeftBtnClick, KeyDown ''ArrowLeft''] s0 = Inr s
      \<and> i < length (slides0 demo_markup) \<and> currentSlide s = Num (int i)
      \<and> dataset_get ''slide'' (allDots s ! i) = Some (to_string (Num (int i)))
      \<and> querySelector (dot_selector (to_string (currentSlide s))) (allDots s) = Some i
      \<and> activateDot (currentSlide s) s = Inr s)"
proof -
  have a: "slides0 demo_markup \<noteq> []" by (simp add: demo_markup_def)
  have b: "list_all (deliverable (length (slides0 demo_markup)))
     [LeftBtnClick, DotsClick (Dot 0), LeftBtnClick, KeyDown ''ArrowLeft'']"
    by (simp add: demo_markup_def)
  from a b activateDot_finds_its_dot[OF a b] show ?thesis by blast
qed

section \<open>The keydown listeners\<close>

lemma count_removed: "count_list (removeEventListener l ls) l = 0"
  by (simp add: removeEventListener_def count_list_0_iff)

lemma count_added:
  assumes "count_list ls l \<le> 1"
  shows "count_list (addEventListener l ls) l = 1"
proof (cases "l \<in> set ls")
  case True
  then have "count_list ls l \<noteq> 0" by (simp add: count_list_0_iff)
  with assms True show ?thesis by (simp add: addEventListener_def)
next
  case False
  then show ?thesis by (simp add: addEventListener_def count_list_0_iff)
qed

lemma sliderView_count:
  assumes "handleKey_count s \<le> 1"
  shows "\<exists>s'. sliderView (en # others) s = Inr s'
           \<and> handleKey_count s' = (if truthy (isIntersecting en) then 1 else 0)"
  using assms by (simp add: sliderView_def handleKey_count_def count_added count_removed)

lemma callbacks_count:
  assumes "handleKey_count s \<le> 1" and "list_all visibility_callback es"
  shows "\<exists>s'. run es s = Inr s' \<and> handleKey_count s' \<le> 1"
  using assms
proof (induction es arbitrary: s)
  case Nil
  then show ?case by simp
next
  case (Cons e es)
  from Cons.prems(2) obtain entries where e: "e = SliderObserved entries" and ne: "entries \<noteq> []"
    by (cases e) auto
  from ne obtain en others where en: "entries = en # others" by (cases entries) auto
  from sliderView_count[OF Cons.prems(1), of en others] obtain s1
    where s1: "sliderView (en # others) s = Inr s1" and c1: "handleKey_count s1 \<le> 1"
    by (auto split: if_splits)
  from Cons.prems(2) have rest: "list_all visibility_callback es" by simp
  from Cons.IH[OF c1 rest] s1 show ?case by (simp add: e en)
qed

text \<open>
  Claim C5. Starting with \<open>handleKey\<close> registered at most once (it is not registered when
  the script starts), after every sequence of callbacks of the slider's observer it is
  registered at most once; a further callback that reports the slider in view leaves it
  registered exactly once, also when it was registered already, and a callback that
  reports it out of view leaves it unregistered.
\<close>

theorem handleKey_registered_at_most_once:
  assumes "handleKey_count s \<le> 1" and "list_all visibility_callback es"
  shows "\<exists>s1 s2. run es s = Inr s1 \<and> handleKey_count s1 \<le> 1
           \<and> handle (SliderObserved (en # others)) s1 = Inr s2
           \<and> handleKey_count s2 = (if truthy (isIntersecting en) then 1 else 0)"
proof -
  from callbacks_count[OF assms] obtain s1
    where r: "run es s = Inr s1" and c: "handleKey_count s1 \<le> 1" by blast
  from sliderView_count[OF c, of en others] r c show ?thesis by auto
qed

theorem handleKey_registered_at_most_once_witness:
  "handleKey_count demo_page \<le> 1 \<and>
   list_all visibility_callback
     [SliderObserved [\<lparr>isIntersecting = Some True\<rparr>],
      SliderObserved [\<lparr>isIntersecting = Some True\<rparr>]] \<and>
   (\<exists>s1 s2. run [SliderObserved [\<lparr>isIntersecting = Some True\<rparr>],
                  SliderObserved [\<lparr>isIntersecting = Some True\<rparr>]] demo_page = Inr s1
      \<and> handleKey_count s1 \<le> 1
      \<and> handle (SliderObserved (\<lparr>isIntersecting = Some True\<rparr> # [])) s1 = Inr s2
      \<and> handleKey_count s2 = (if truthy (isIntersecting \<lparr>isIntersecting = Some True\<rparr>) then 1 else 0))"
proof -
  have a: "handleKey_count demo_page \<le> 1" by (simp add: handleKey_count_def demo_page_def)
  have b: "list_all visibility_callback
     [SliderObserved [\<lparr>isIntersecting = Some True\<rparr>],
      SliderObserved [\<lparr>isIntersecting = Some True\<rparr>]]" by simp
  from a b handleKey_registered_at_most_once[OF a b] show ?thesis by blast
qed

section \<open>Keys\<close>

lemma escapeKey_other: "key \<noteq> ''Escape'' \<Longrightarrow> escapeKey key s = Inr s"
  by (simp add: escapeKey_def)

lemma dispatch_without_handleKey:
  assumes "HandleKey \<notin> set ls" and "key \<noteq> ''Escape''"
  shows "dispatch_keydown ls key s = Inr s"
  using assms
proof (induction ls)
  case Nil
  then show ?case by simp
next
  case (Cons l ls)
  then have "l = EscapeClose" by (cases l) auto
  with Cons show ?case by (simp add: escapeKey_other)
qed

lemma and_then_return: "and_then r (\<lambda>x. Inr x) = r"
  by (cases r) simp_all

lemma dispatch_right:
  assumes "distinct ls" and "HandleKey \<in> set ls"
  shows "dispatch_keydown ls ''ArrowRight'' s = nextSlide s"
  using assms
proof (induction ls)
  case Nil
  then show ?case by simp
next
  case (Cons l ls)
  show ?case
  proof (cases l)
    case HandleKey
    with Cons.prems have "HandleKey \<notin> set ls" by simp
    then have "dispatch_keydown ls ''ArrowRight'' = (\<lambda>x. Inr x)"
      by (intro ext dispatch_without_handleKey) simp_all
    with HandleKey show ?thesis by (simp add: handleKey_right and_then_return)
  next
    case EscapeClose
    with Cons show ?thesis by (simp add: escapeKey_other)
  qed
qed

lemma dispatch_other_keys:
  assumes "key \<noteq> ''ArrowRight''" and "key \<noteq> ''ArrowLeft''"
  shows "\<exists>t'. dispatch_keydown ls key t = Inr t' \<and> currentSlide t' = currentSlide t"
proof (induction ls arbitrary: t)
  case Nil
  then show ?case by simp
next
  case (Cons l ls)
  have "\<exists>t1. call_listener l key t = Inr t1 \<and> currentSlide t1 = currentSlide t"
  proof (cases l)
    case HandleKey
    then show ?thesis using assms by (simp add: handleKey_other)
  next
    case EscapeClose
    then show ?thesis using escapeKey_cases[of key t] by auto
  qed
  then obtain t1 where t1: "call_listener l key t = Inr t1"
    and c1: "currentSlide t1 = currentSlide t" by blast
  from Cons[of t1] t1 c1 show ?case by simp
qed

text \<open>
  Claim C6. On a loaded page showing slide \<open>i\<close> of \<open>N\<close>: after a callback that reports
  the slider in view, two presses of ArrowRight leave \<open>currentSlide\<close> at \<open>(i + 2) mod N\<close>;
  after a callback that then reports it out of view, a press of ArrowRight leaves
  \<open>currentSlide\<close> as it is. In every state of the page, a press of a key other than
  ArrowRight and ArrowLeft leaves \<open>currentSlide\<close> as it is.
\<close>

theorem keyboard_follows_visibility:
  assumes "carousel_inv N i s"
    and "truthy (isIntersecting en)" and "\<not> truthy (isIntersecting ex)"
  shows "(\<exists>s2 s3.
            run [SliderObserved (en # others), KeyDown ''ArrowRight'', KeyDown ''ArrowRight''] s
              = Inr s2
          \<and> currentSlide s2 = Num (int ((i + 2) mod N))
          \<and> run [SliderObserved (ex # otherx), KeyDown ''ArrowRight''] s2 = Inr s3
          \<and> currentSlide s3 = currentSlide s2)
       \<and> (\<forall>key t. key \<noteq> ''ArrowRight'' \<and> key \<noteq> ''ArrowLeft'' \<longrightarrow>
            (\<exists>t'. handle (KeyDown key) t = Inr t' \<and> currentSlide t' = currentSlide t))"
proof -
  define s1 where "s1 = s\<lparr>keydown_listeners := addEventListener HandleKey (keydown_listeners s)\<rparr>"
  have v1: "sliderView (en # others) s = Inr s1"
    using assms(2) by (simp add: sliderView_def s1_def)
  have inv1: "carousel_inv N i s1"
    using assms(1) by (auto simp: carousel_inv_def s1_def addEventListener_def)
  have d1: "distinct (keydown_listeners s1)" and h1: "HandleKey \<in> set (keydown_listeners s1)"
    using assms(1) by (auto simp: carousel_inv_def s1_def addEventListener_def)
  define j where "j = Suc i mod N"
  define sa where "sa = goto_slide N j s1"
  have ka: "handle (KeyDown ''ArrowRight'') s1 = Inr sa"
    using next_inv(1)[OF inv1] by (simp add: dispatch_right[OF d1 h1] sa_def j_def)
  have inva: "carousel_inv N j sa"
    using next_inv(2)[OF inv1] by (simp add: sa_def j_def)
  have da: "distinct (keydown_listeners sa)" and ha: "HandleKey \<in> set (keydown_listeners sa)"
    using d1 h1 by (simp_all add: sa_def)
  define s2 where "s2 = goto_slide N (Suc j mod N) sa"
  have kb: "handle (KeyDown ''ArrowRight'') sa = Inr s2"
    using next_inv(1)[OF inva] by (simp add: dispatch_right[OF da ha] s2_def)
  have "Suc j mod N = (i + 2) mod N"
    by (simp add: j_def mod_Suc_eq)
  then have c2: "currentSlide s2 = Num (int ((i + 2) mod N))" by (simp add: s2_def)
  have r2: "run [SliderObserved (en # others), KeyDown ''ArrowRight'', KeyDown ''ArrowRight''] s
      = Inr s2"
    using v1 ka kb by simp
  define s3 where
    "s3 = s2\<lparr>keydown_listeners := removeEventListener HandleKey (keydown_listeners s2)\<rparr>"
  have v3: "sliderView (ex # otherx) s2 = Inr s3"
    using assms(3) by (simp add: sliderView_def s3_def)
  have "HandleKey \<notin> set (keydown_listeners s3)"
    by (simp add: s3_def removeEventListener_def)
  then have k3: "handle (KeyDown ''ArrowRight'') s3 = Inr s3"
    by (simp add: dispatch_without_handleKey)
  have r3: "run [SliderObserved (ex # otherx), KeyDown ''ArrowRight''] s2 = Inr s3"
    using v3 k3 by simp
  have c3: "currentSlide s3 = currentSlide s2" by (simp add: s3_def)
  have other: "\<forall>key t. key \<noteq> ''ArrowRight'' \<and> key \<noteq> ''ArrowLeft'' \<longrightarrow>
      (\<exists>t'. handle (KeyDown key) t = Inr t' \<and> currentSlide t' = currentSlide t)"
    using dispatch_other_keys by simp
  from r2 c2 r3 c3 other show ?thesis by blast
qed

theorem keyboard_follows_visibility_witness:
  "carousel_inv 4 3 (goto_slide 4 3 demo_page) \<and>
   truthy (isIntersecting \<lparr>isIntersecting = Some True\<rparr>) \<and>
   \<not> truthy (isIntersecting \<lparr>isIntersecting = Some False\<rparr>) \<and>
   (\<exists>s2 s3.
       run [SliderObserved (\<lparr>isIntersecting = Some True\<rparr> # []), KeyDown ''ArrowRight'',
            KeyDown ''ArrowRight''] (goto_slide 4 3 demo_page) = Inr s2
     \<and> currentSlide s2 = Num (int ((3 + 2) mod 4))
     \<and> run [SliderObserved (\<lparr>isIntersecting = Some False\<rparr> # []), KeyDown ''ArrowRight''] s2
         = Inr s3
     \<and> currentSlide s3 = currentSlide s2) \<and>
   ''Escape'' \<noteq> ''ArrowRight'' \<and> ''Escape'' \<noteq> ''ArrowLeft'' \<and>
   (\<exists>t'. handle (KeyDown ''Escape'') (openModal demo_page) = Inr t'
      \<and> currentSlide t' = currentSlide (openModal demo_page))"
proof -
  have a: "carousel_inv 4 3 (goto_slide 4 3 demo_page)"
    by (rule goto_slide_inv[OF _ demo_inv]) simp
  have b: "truthy (isIntersecting \<lparr>isIntersecting = Some True\<rparr>)" by (simp add: truthy_def)
  have c: "\<not> truthy (isIntersecting \<lparr>isIntersecting = Some False\<rparr>)" by (simp add: truthy_def)
  have k: "''Escape'' \<noteq> ''ArrowRight'' \<and> ''Escape'' \<noteq> ''ArrowLeft''" by simp
  note th = keyboard_follows_visibility[OF a b c, of "[]" "[]"]
  have p: "\<exists>s2 s3.
       run [SliderObserved (\<lparr>isIntersecting = Some True\<rparr> # []), KeyDown ''ArrowRight'',
            KeyDown ''ArrowRight''] (goto_slide 4 3 demo_page) = Inr s2
     \<and> currentSlide s2 = Num (int ((3 + 2) mod 4))
     \<and> run [SliderObserved (\<lparr>isIntersecting = Some False\<rparr> # []), KeyDown ''ArrowRight''] s2
         = Inr s3
     \<and> currentSlide s3 = currentSlide s2"
    by (rule conjunct1[OF th])
  have q: "\<exists>t'. handle (KeyDown ''Escape'') (openModal demo_page) = Inr t'
      \<and> currentSlide t' = currentSlide (openModal demo_page)"
    by (rule conjunct2[OF th, rule_format, OF k])
  show ?thesis
    by (intro conjI a b c p q conjunct1[OF k] conjunct2[OF k])
qed

section \<open>Observer callbacks without an entry\<close>

text \<open>
  Claim C7, as the script has it. A callback whose first entry lacks \<open>isIntersecting\<close>
  is taken as "not intersecting", like one whose entry has it false, and returns:
  \<open>sliderView\<close> unregisters \<open>handleKey\<close>, \<open>stickyNav\<close> makes the navigation sticky. A
  callback with an empty array of entries throws a TypeError.
\<close>

theorem callback_without_isIntersecting:
  "sliderView (\<lparr>isIntersecting = None\<rparr> # others) s
     = Inr (s\<lparr>keydown_listeners := removeEventListener HandleKey (keydown_listeners s)\<rparr>)
   \<and> sliderView (\<lparr>isIntersecting = None\<rparr> # others) s
     = sliderView (\<lparr>isIntersecting = Some False\<rparr> # others) s
   \<and> stickyNav (\<lparr>isIntersecting = None\<rparr> # others) s
     = Inr (s\<lparr>nav := classList_add ''sticky'' (nav s)\<rparr>)
   \<and> stickyNav (\<lparr>isIntersecting = None\<rparr> # others) s
     = stickyNav (\<lparr>isIntersecting = Some False\<rparr> # others) s
   \<and> sliderView [] s = Inl TypeError
   \<and> stickyNav [] s = Inl TypeError"
  by (simp add: sliderView_def stickyNav_def truthy_def)

text \<open>
  Claim C7 as stated fails: on the page of four slides, both callbacks throw a TypeError
  when the array of entries is empty.
\<close>

theorem callback_without_entry_throws:
  "sliderView [] demo_page = Inl TypeError \<and> stickyNav [] demo_page = Inl TypeError"
  by (simp add: sliderView_def stickyNav_def)

section \<open>The modal\<close>

lemma saved_after_open: "modal_saved (body_overflow s) (openModal s)"
  by (simp add: modal_saved_def openModal_def classList_contains_def classList_remove_def)

lemma closed_after_close:
  assumes "previousOverflow t = Some v"
  shows "modal_closed v (closeModal t)"
  using assms
  by (simp add: modal_closed_def closeModal_def classList_contains_def classList_add_def)

lemma closed_saved: "modal_closed v t \<Longrightarrow> modal_saved v t"
  by (simp add: modal_closed_def modal_saved_def)

lemma modal_saved_cong:
  assumes "modal_saved v s"
    and "previousOverflow t = previousOverflow s" and "showModal t = showModal s"
    and "body_overflow t = body_overflow s"
  shows "modal_saved v t"
  using assms by (simp add: modal_saved_def)

lemma escapeKey_saved:
  assumes "modal_saved v s"
  shows "\<exists>s'. escapeKey key s = Inr s' \<and> modal_saved v s'
           \<and> (key = ''Escape'' \<longrightarrow> modal_closed v s')"
proof (cases "key = ''Escape'' \<and> \<not> classList_contains ''hidden'' (showModal s)")
  case True
  have "modal_closed v (closeModal s)"
    using assms by (intro closed_after_close) (simp add: modal_saved_def)
  with True show ?thesis by (auto simp: escapeKey_def closed_saved)
next
  case False
  then have e: "escapeKey key s = Inr s" by (auto simp: escapeKey_def)
  have "key = ''Escape'' \<longrightarrow> modal_closed v s"
    using False assms by (auto simp: modal_saved_def modal_closed_def)
  with e assms show ?thesis by simp
qed

lemma handleKey_saved:
  assumes "carousel_inv N i s" and "modal_saved v s"
  shows "\<exists>s' j. handleKey key s = Inr s' \<and> carousel_inv N j s' \<and> modal_saved v s'"
proof -
  have g: "modal_saved v (goto_slide N k s)" for k
    by (rule modal_saved_cong[OF assms(2)]) simp_all
  consider "key = ''ArrowRight''" | "key = ''ArrowLeft''"
    | "key \<noteq> ''ArrowRight''" "key \<noteq> ''ArrowLeft''" by blast
  then show ?thesis
  proof cases
    case 1
    then show ?thesis using next_inv[OF assms(1)] g by (metis handleKey_right)
  next
    case 2
    then show ?thesis using previous_inv[OF assms(1)] g by (metis handleKey_left)
  next
    case 3
    then show ?thesis using assms handleKey_other by blast
  qed
qed

lemma dispatch_saved:
  assumes "carousel_inv N i s" and "modal_saved v s"
  shows "\<exists>s' j. dispatch_keydown ls key s = Inr s' \<and> carousel_inv N j s' \<and> modal_saved v s'"
  using assms
proof (induction ls arbitrary: s i)
  case Nil
  then show ?case by auto
next
  case (Cons l ls)
  have "\<exists>s1 j. call_listener l key s = Inr s1 \<and> carousel_inv N j s1 \<and> modal_saved v s1"
  proof (cases l)
    case HandleKey
    then show ?thesis using handleKey_saved[OF Cons.prems] by simp
  next
    case EscapeClose
    from escapeKey_saved[OF Cons.prems(2), of key] obtain s1
      where s1: "escapeKey key s = Inr s1" and m1: "modal_saved v s1" by blast
    from escapeKey_inv[OF Cons.prems(1), of key] s1 have "carousel_inv N i s1" by auto
    with EscapeClose s1 m1 show ?thesis by auto
  qed
  then obtain s1 j where s1: "call_listener l key s = Inr s1"
    and inv1: "carousel_inv N j s1" and m1: "modal_saved v s1" by blast
  from Cons.IH[OF inv1 m1] s1 show ?case by simp
qed

lemma handle_saved:
  assumes "carousel_inv N i s" and "modal_saved v s"
    and "deliverable N e" and "e \<noteq> OpenAccountClick"
  shows "\<exists>s' j. handle e s = Inr s' \<and> carousel_inv N j s' \<and> modal_saved v s'"
proof -
  have g: "modal_saved v (goto_slide N k s)" for k
    by (rule modal_saved_cong[OF assms(2)]) simp_all
  have c: "modal_saved v (closeModal s)"
    using assms(2) by (intro closed_saved closed_after_close) (simp add: modal_saved_def)
  have ci: "carousel_inv N i (closeModal s)"
    by (rule carousel_inv_cong[OF assms(1)]) simp_all
  show ?thesis
  proof (cases e)
    case RightBtnClick
    then show ?thesis using next_inv[OF assms(1)] g by auto
  next
    case LeftBtnClick
    then show ?thesis using previous_inv[OF assms(1)] g by auto
  next
    case (DotsClick t)
    show ?thesis
    proof (cases t)
      case (Dot k)
      with DotsClick assms(3) have k: "k < N" by simp
      have "handle e s = Inr (goto_slide N k s)"
        unfolding DotsClick Dot by (rule handle_dot_made[OF inv_made[OF assms(1)] k])
      then show ?thesis using goto_slide_inv[OF k assms(1)] g by blast
    next
      case DotContainer
      then show ?thesis using DotsClick assms(1,2) by (auto simp: container_click)
    qed
  next
    case (KeyDown key)
    then show ?thesis using dispatch_saved[OF assms(1,2)] by simp
  next
    case (SliderObserved entries)
    with assms(3) obtain en others where e: "entries = en # others" by (cases entries) auto
    from sliderView_inv[OF assms(1), of entries] e obtain s'
      where s': "sliderView entries s = Inr s'" and i': "carousel_inv N i s'" by auto
    have "modal_saved v s'"
      using s' assms(2) unfolding e
      by (auto simp: sliderView_def modal_saved_def split: if_splits)
    with SliderObserved s' i' show ?thesis by auto
  next
    case (HeaderObserved entries)
    with assms(3) obtain en others where e: "entries = en # others" by (cases entries) auto
    from stickyNav_inv[OF assms(1), of entries] e obtain s'
      where s': "stickyNav entries s = Inr s'" and i': "carousel_inv N i s'" by auto
    have "modal_saved v s'"
      using s' assms(2) unfolding e
      by (auto simp: stickyNav_def modal_saved_def split: if_splits)
    with HeaderObserved s' i' show ?thesis by auto
  next
    case OpenAccountClick
    with assms(4) show ?thesis by simp
  next
    case BtnCloseClick
    with c ci show ?thesis by auto
  next
    case OverlayClick
    with c ci show ?thesis by auto
  qed
qed

lemma run_saved:
  assumes "carousel_inv N i s" and "modal_saved v s"
    and "list_all (deliverable N) es" and "OpenAccountClick \<notin> set es"
  shows "\<exists>s' j. run es s = Inr s' \<and> carousel_inv N j s' \<and> modal_saved v s'"
  using assms
proof (induction es arbitrary: s i)
  case Nil
  then show ?case by auto
next
  case (Cons e es)
  then have d: "deliverable N e" and ne: "e \<noteq> OpenAccountClick"
    and rest: "list_all (deliverable N) es" "OpenAccountClick \<notin> set es" by auto
  from handle_saved[OF Cons.prems(1,2) d ne] obtain s1 j
    where s1: "handle e s = Inr s1" and inv1: "carousel_inv N j s1"
      and m1: "modal_saved v s1" by blast
  from Cons.IH[OF inv1 m1 rest] s1 show ?case by simp
qed

lemma dispatch_escape_closed:
  assumes "modal_closed v t"
  shows "\<exists>t'. dispatch_keydown ls ''Escape'' t = Inr t' \<and> modal_closed v t'"
  using assms
proof (induction ls arbitrary: t)
  case Nil
  then show ?case by simp
next
  case (Cons l ls)
  have "call_listener l ''Escape'' t = Inr t"
  proof (cases l)
    case HandleKey
    then show ?thesis by (simp add: handleKey_other)
  next
    case EscapeClose
    then show ?thesis using Cons.prems by (simp add: escapeKey_def modal_closed_def)
  qed
  with Cons.IH[OF Cons.prems] show ?case by simp
qed

lemma dispatch_escape:
  assumes "modal_saved v t" and "EscapeClose \<in> set ls"
  shows "\<exists>t'. dispatch_keydown ls ''Escape'' t = Inr t' \<and> modal_closed v t'"
  using assms
proof (induction ls arbitrary: t)
  case Nil
  then show ?case by simp
next
  case (Cons l ls)
  show ?case
  proof (cases l)
    case HandleKey
    with Cons.prems have "EscapeClose \<in> set ls" by simp
    from Cons.IH[OF Cons.prems(1) this] HandleKey show ?thesis by (simp add: handleKey_other)
  next
    case EscapeClose
    from escapeKey_saved[OF Cons.prems(1), of "''Escape''"] obtain t1
      where t1: "escapeKey ''Escape'' t = Inr t1" and c1: "modal_closed v t1" by auto
    from dispatch_escape_closed[OF c1, of ls] t1 EscapeClose show ?thesis by simp
  qed
qed

text \<open>
  What \<open>closeModal\<close> gives back is what the latest \<open>openModal\<close> saved: on a loaded page,
  after \<open>openModal\<close> and any further events that do not call \<open>openModal\<close> again, each
  way of closing (the close button, the overlay, the Escape key) leaves the modal hidden
  and the body's overflow at the value it had when \<open>openModal\<close> was called.
\<close>

lemma close_restores_latest_saved:
  assumes "carousel_inv N i s" and "list_all (deliverable N) es"
    and "OpenAccountClick \<notin> set es" and "closing e"
  shows "\<exists>s1 s2. run (OpenAccountClick # es) s = Inr s1 \<and> handle e s1 = Inr s2
           \<and> body_overflow s2 = body_overflow s
           \<and> classList_contains ''hidden'' (showModal s2)"
proof -
  have io: "carousel_inv N i (openModal s)"
    by (rule carousel_inv_cong[OF assms(1)]) simp_all
  from run_saved[OF io saved_after_open assms(2,3)] obtain s1 j
    where r: "run es (openModal s) = Inr s1" and inv1: "carousel_inv N j s1"
      and m1: "modal_saved (body_overflow s) s1" by blast
  have r1: "run (OpenAccountClick # es) s = Inr s1" using r by simp
  have p1: "previousOverflow s1 = Some (body_overflow s)"
    using m1 by (simp add: modal_saved_def)
  have "\<exists>s2. handle e s1 = Inr s2 \<and> modal_closed (body_overflow s) s2"
  proof (cases e)
    case BtnCloseClick
    then show ?thesis using closed_after_close[OF p1] by simp
  next
    case OverlayClick
    then show ?thesis using closed_after_close[OF p1] by simp
  next
    case (KeyDown key)
    with assms(4) have k: "key = ''Escape''" by simp
    have "EscapeClose \<in> set (keydown_listeners s1)"
      using inv1 by (simp add: carousel_inv_def)
    from dispatch_escape[OF m1 this] KeyDown k show ?thesis by simp
  qed (use assms(4) in simp_all)
  then obtain s2 where h: "handle e s1 = Inr s2"
    and c: "modal_closed (body_overflow s) s2" by blast
  from r1 h c show ?thesis by (auto simp: modal_closed_def)
qed

text \<open>
  Claim C8 fails in the script when an opening button is activated twice before the
  modal is closed. On the page of four slides loaded with the body's overflow at
  "scroll", open then close leaves the modal hidden and the overflow at "scroll"; open,
  open, close (by the close button, the overlay or the Escape key) leaves the modal
  hidden and the overflow at "hidden": the second \<open>openModal\<close> has saved the "hidden" that
  the first one set, and \<open>closeModal\<close> assigns that, so the page stays locked against
  scrolling.
\<close>

theorem reopen_leaves_scroll_locked:
  "map_sum id modal_state (page_load scroll_markup) = Inr (True, ''scroll'') \<and>
   map_sum id modal_state
     (and_then (page_load scroll_markup) (run [OpenAccountClick, BtnCloseClick]))
     = Inr (True, ''scroll'') \<and>
   map_sum id modal_state
     (and_then (page_load scroll_markup) (run [OpenAccountClick, OpenAccountClick]))
     = Inr (False, ''hidden'') \<and>
   map_sum id modal_state
     (and_then (page_load scroll_markup)
        (run [OpenAccountClick, OpenAccountClick, BtnCloseClick]))
     = Inr (True, ''hidden'') \<and>
   map_sum id modal_state
     (and_then (page_load scroll_markup)
        (run [OpenAccountClick, OpenAccountClick, OverlayClick]))
     = Inr (True, ''hidden'') \<and>
   map_sum id modal_state
     (and_then (page_load scroll_markup)
        (run [OpenAccountClick, OpenAccountClick, KeyDown ''Escape'']))
     = Inr (True, ''hidden'')"
  by code_simp

section \<open>Class lists\<close>

lemma contains_remove [simp]:
  "classList_contains c (classList_remove d e) \<longleftrightarrow> c \<noteq> d \<and> classList_contains c e"
  by (auto simp: classList_contains_def classList_remove_def)

lemma contains_add [simp]:
  "classList_contains c (classList_add d e) \<longleftrightarrow> c = d \<or> classList_contains c e"
  by (auto simp: classList_contains_def classList_add_def)

lemma dataset_remove [simp]: "dataset (classList_remove d e) = dataset e"
  by (simp add: classList_remove_def)

lemma dataset_add [simp]: "dataset (classList_add d e) = dataset e"
  by (simp add: classList_add_def)


section \<open>Node lists\<close>

lemma at_node_simps [simp]:
  "length (elems (at_node f n s)) = length (elems s)"
  "operationsTabs (at_node f n s) = operationsTabs s"
  "operationsContents (at_node f n s) = operationsContents s"
  by (simp_all add: at_node_def)


lemma forEach_simps [simp]:
  "length (elems (forEach ns f s)) = length (elems s)"
  "operationsTabs (forEach ns f s) = operationsTabs s"
  "operationsContents (forEach ns f s) = operationsContents s"
  unfolding forEach_def by (induction ns arbitrary: s) simp_all









lemma find_closest:
  "closest c event s = Some t \<Longrightarrow> has_class c s t"
  by (auto simp: closest_def find_Some_iff)

section \<open>Activating a tab\<close>





text \<open>
  Markup whose tab buttons carry the class \<^verbatim>\<open>btn\<close>, with no other \<^verbatim>\<open>.btn\<close> on the path of
  the click and a container that is no tab, gives script.js the same button as the
  later parts.
\<close>

lemma btn_on_tabs_same_button:
  assumes "list_all (\<lambda>n. has_class ''btn'' s n = has_class ''operations__tab'' s n) (path event)"
    and "\<not> has_class ''operations__tab'' s (currentTarget event)"
  shows "same_button Script_js event s"
proof -
  have "List.find (has_class ''btn'' s) ns = List.find (has_class ''operations__tab'' s) ns"
    if "list_all (\<lambda>n. has_class ''btn'' s n = has_class ''operations__tab'' s n) ns" for ns
    using that by (induction ns) simp_all
  then have e: "closest ''btn'' event s = closest ''operations__tab'' event s"
    using assms(1) by (simp add: closest_def)
  have "closest ''operations__tab'' event s \<noteq> Some (currentTarget event)"
    using assms(2) find_closest by fastforce
  with e show ?thesis by simp
qed





text \<open>
  Where the tabs do not carry the class \<^verbatim>\<open>btn\<close>, script.js has no button under a click
  on a tab: on \<open>plain_doc\<close> a click on the span inside the second tab leaves the page as
  it was under script.js, while the later parts switch to the second tab.
\<close>

lemma script_js_needs_btn_on_tabs:
  "\<not> same_button Script_js \<lparr>path = [3, 2, 0], currentTarget = 0\<rparr> (tabs_load plain_doc) \<and>
   tab_listener Script_js \<lparr>path = [3, 2, 0], currentTarget = 0\<rparr> (tabs_load plain_doc)
     = Inr (tabs_load plain_doc) \<and>
   map_sum id active_state
     (tab_listener Later_parts \<lparr>path = [3, 2, 0], currentTarget = 0\<rparr> (tabs_load plain_doc))
     = Inr ([2], [6])"
  by code_simp

end
